theory Spec2Isabelle
  imports Complex_Main
begin

section \<open>mathexp.py: parsing and evaluating mathematical expressions\<close>

text \<open>
  A shallow embedding of \<^verbatim>\<open>mathexp.py\<close>. Python strings are \<open>string\<close>, Python integers
  are \<open>int\<close>, every \<^verbatim>\<open>raise\<close> and every failing built-in operation is a value \<open>Inl e\<close>
  of the result type \<open>error + 'a\<close>.

  Python floats are modelled as \<open>real\<close>: rounding and overflow are not modelled, and
  where Python continues with a value that is no real number (an infinity, a NaN, a
  complex power) the model stops with \<open>OutsideReals\<close>. The concrete evaluations below
  only touch small integers, on which float arithmetic is exact. Python's \<^verbatim>\<open>int\<close> results
  (\<^verbatim>\<open>fact\<close> returns one) are not told apart from floats. The iteration order of
  the dictionary \<^verbatim>\<open>FUNCTION_LIST\<close> is its insertion order (Python 3.7 and later), and
  \<^verbatim>\<open>/\<close> is true division (Python 3).
\<close>

subsection \<open>Errors\<close>

text \<open>
  The module raises \<^verbatim>\<open>Exception(msg)\<close> with one of four messages:
  \<open>MalformedExpression\<close> is \<^verbatim>\<open>MALFORMED_EXPRESSION_ERROR\<close>, \<open>ExpressionParsingError\<close> is
  \<^verbatim>\<open>EXPRESSION_PARSING_ERROR\<close>, \<open>SymbolNotFound name\<close> is
  \<^verbatim>\<open>SYMBOL_NOT_FOUND_ERROR + ": " + name\<close> and \<open>InvalidArgument\<close> is the message of
  \<^verbatim>\<open>fact\<close>. The others are the exceptions of Python's built-in operations.
  \<open>OutsideReals\<close> is no exception of the program: it marks the results this real-valued
  model does not follow.
\<close>

datatype error =
    MalformedExpression
  | ExpressionParsingError
  | SymbolNotFound string
  | InvalidArgument
  | IndexError
  | KeyError string
  | ZeroDivisionError
  | ValueError
  | AttributeError
  | OutsideReals

subsection \<open>String helpers of Python\<close>

definition startswith :: "string \<Rightarrow> string \<Rightarrow> bool" where
  "startswith s p = (take (length p) s = p)"

definition endswith :: "string \<Rightarrow> string \<Rightarrow> bool" where
  "endswith s p = (length p \<le> length s \<and> drop (length s - length p) s = p)"

text \<open>The slice \<^verbatim>\<open>s[a:-1]\<close> for \<open>a \<ge> 0\<close>: from index \<open>a\<close> up to, not including, the last character.\<close>

definition slice_to_last :: "nat \<Rightarrow> string \<Rightarrow> string" where
  "slice_to_last a s = butlast (drop a s)"

subsection \<open>Parenthesis balance\<close>

fun balanced_loop :: "string \<Rightarrow> int \<Rightarrow> bool" where
  "balanced_loop [] i = (i = 0)"
| "balanced_loop (char # rest) i =
     (let i1 = (if char = CHR ''('' then i + 1 else i);
          i2 = (if char = CHR '')'' then i1 - 1 else i1)
      in if i2 < 0 then False else balanced_loop rest i2)"

definition parens_are_balanced :: "string \<Rightarrow> bool" where
  "parens_are_balanced expr = balanced_loop expr 0"

subsection \<open>Operators\<close>

definition is_operator :: "char \<Rightarrow> bool" where
  "is_operator token = (token \<in> set [CHR ''^'', CHR ''*'', CHR ''/'', CHR ''+'', CHR ''-''])"

definition OPERATOR_PRIORITY :: "char \<rightharpoonup> int" where
  "OPERATOR_PRIORITY =
     [CHR ''^'' \<mapsto> -1, CHR ''*'' \<mapsto> -2, CHR ''/'' \<mapsto> -2, CHR ''+'' \<mapsto> -3, CHR ''-'' \<mapsto> -3]"

subsection \<open>Normalisation\<close>

lemma length_slice_to_last_less:
  "startswith expr ''('' \<Longrightarrow> length (slice_to_last (Suc 0) expr) < length expr"
  by (cases expr) (simp_all add: startswith_def slice_to_last_def)

function remove_extra_parens :: "string \<Rightarrow> string" where
  "remove_extra_parens expr =
     (if startswith expr ''('' \<and> endswith expr '')'' \<and> parens_are_balanced (slice_to_last 1 expr)
      then remove_extra_parens (slice_to_last 1 expr)
      else expr)"
  by pat_completeness auto
termination
  by (relation "measure length") (simp_all add: length_slice_to_last_less)

declare remove_extra_parens.simps [simp del]

text \<open>
  \<^verbatim>\<open>exp[0]\<close> and \<^verbatim>\<open>exp[-1]\<close> raise \<^verbatim>\<open>IndexError\<close> on the empty string. After a
  leading \<^verbatim>\<open>-\<close> has been turned into \<^verbatim>\<open>0-\<close>, the test for a leading \<^verbatim>\<open>+\<close> reads the
  new first character.
\<close>

definition exp_check :: "string \<Rightarrow> error + string" where
  "exp_check exp0 =
     (if \<not> parens_are_balanced exp0 then Inl MalformedExpression
      else
        let exp1 = filter (\<lambda>c. c \<noteq> CHR '' '') exp0;
            exp2 = remove_extra_parens exp1
        in if exp2 = [] then Inl IndexError
           else
             let first = hd exp2; lastc = last exp2
             in if is_operator first \<and> first \<noteq> CHR ''+'' \<and> first \<noteq> CHR ''-''
                then Inl MalformedExpression
                else if is_operator lastc then Inl MalformedExpression
                else
                  let exp3 = (if hd exp2 = CHR ''-'' then ''0'' @ exp2 else exp2);
                      exp4 = (if hd exp3 = CHR ''+'' then tl exp3 else exp3)
                  in Inr exp4)"

subsection \<open>The top-level operator\<close>

text \<open>
  The loop of \<^verbatim>\<open>lookup_top_operator\<close>: \<open>expr\<close> is the whole string, the second argument
  what is left to scan, \<open>i\<close> the index of the character scanned last. \<^verbatim>\<open>exp[i - 1]\<close> is
  read only for \<open>0 < i\<close> and \<^verbatim>\<open>exp[pos]\<close> only for a stored index, so both reads are in
  range; a key missing from \<^verbatim>\<open>OPERATOR_PRIORITY\<close> raises \<^verbatim>\<open>KeyError\<close>.
\<close>

fun lookup_loop :: "string \<Rightarrow> string \<Rightarrow> int \<Rightarrow> int \<Rightarrow> int \<Rightarrow> error + int" where
  "lookup_loop expr [] pos level i = Inr pos"
| "lookup_loop expr (token # rest) pos level i0 =
     (let i = i0 + 1 in
      if token = CHR ''('' then lookup_loop expr rest pos (level + 1) i
      else if token = CHR '')'' then lookup_loop expr rest pos (level - 1) i
      else if \<not> is_operator token then lookup_loop expr rest pos level i
      else if level \<noteq> 0 then lookup_loop expr rest pos level i
      else if i = 0 \<or> i = int (length expr) - 1 then lookup_loop expr rest pos level i
      else if (token = CHR ''+'' \<or> token = CHR ''-'') \<and> is_operator (expr ! nat (i - 1))
        then lookup_loop expr rest pos level i
      else if pos = -1 then lookup_loop expr rest i level i
      else
        (case OPERATOR_PRIORITY token of
           None \<Rightarrow> Inl (KeyError [token])
         | Some a \<Rightarrow>
            (case OPERATOR_PRIORITY (expr ! nat pos) of
               None \<Rightarrow> Inl (KeyError [expr ! nat pos])
             | Some b \<Rightarrow>
                if a \<le> b then lookup_loop expr rest i level i
                else lookup_loop expr rest pos level i)))"

definition lookup_top_operator :: "string \<Rightarrow> error + int" where
  "lookup_top_operator expr = lookup_loop expr expr (-1) 0 (-1)"

subsection \<open>Python's numeric operations and the table of functions\<close>

text \<open>
  Python's float operations. \<^verbatim>\<open>a / b\<close> raises \<^verbatim>\<open>ZeroDivisionError\<close> for a zero divisor.
  \<^verbatim>\<open>a ** b\<close> is 1 for \<open>b = 0\<close>, raises \<^verbatim>\<open>ZeroDivisionError\<close> for zero to a negative
  power, and for a negative base and a non-integral exponent is a complex number.
  \<^verbatim>\<open>math.asin\<close>, \<^verbatim>\<open>math.acos\<close>, \<^verbatim>\<open>math.log\<close> and \<^verbatim>\<open>math.log10\<close> raise
  \<^verbatim>\<open>ValueError\<close> outside their domains.
\<close>

definition py_truediv :: "real \<Rightarrow> real \<Rightarrow> error + real" where
  "py_truediv a b = (if b = 0 then Inl ZeroDivisionError else Inr (a / b))"

definition py_pow :: "real \<Rightarrow> real \<Rightarrow> error + real" where
  "py_pow a b =
     (if b = 0 then Inr 1
      else if a = 0 then (if b < 0 then Inl ZeroDivisionError else Inr 0)
      else if 0 < a then Inr (a powr b)
      else if frac b = 0 then Inr (a powi \<lfloor>b\<rfloor>)
      else Inl OutsideReals)"

definition math_asin :: "real \<Rightarrow> error + real" where
  "math_asin x = (if -1 \<le> x \<and> x \<le> 1 then Inr (arcsin x) else Inl ValueError)"

definition math_acos :: "real \<Rightarrow> error + real" where
  "math_acos x = (if -1 \<le> x \<and> x \<le> 1 then Inr (arccos x) else Inl ValueError)"

definition math_log :: "real \<Rightarrow> error + real" where
  "math_log x = (if 0 < x then Inr (ln x) else Inl ValueError)"

definition math_log10 :: "real \<Rightarrow> error + real" where
  "math_log10 x = (if 0 < x then Inr (log 10 x) else Inl ValueError)"

text \<open>
  \<^verbatim>\<open>fact\<close>: \<^verbatim>\<open>num % 1 != 0\<close> holds of the non-integral numbers, \<^verbatim>\<open>int(num)\<close> is then the
  integer itself, and the loop multiplies \<^verbatim>\<open>res\<close> by every \<open>i\<close> of \<^verbatim>\<open>range(1, num + 1)\<close>.
\<close>

definition fact_py :: "real \<Rightarrow> error + real" where
  "fact_py num =
     (if frac num \<noteq> 0 \<or> num < 0 then Inl InvalidArgument
      else
        let n = \<lfloor>num\<rfloor>
        in if n = 0 \<or> n = 1 then Inr 1
           else Inr (of_int (fold (\<lambda>i res. res * i) [1..n] 1)))"

definition FUNCTION_LIST :: "(string \<times> (real \<Rightarrow> error + real)) list" where
  "FUNCTION_LIST =
     [(''sin'', \<lambda>x. Inr (sin x)),
      (''cos'', \<lambda>x. Inr (cos x)),
      (''tan'', \<lambda>x. Inr (tan x)),
      (''asin'', math_asin),
      (''acos'', math_acos),
      (''atan'', \<lambda>x. Inr (arctan x)),
      (''ln'', math_log),
      (''log'', math_log10),
      (''abs'', \<lambda>x. Inr \<bar>x\<bar>),
      (''fact'', fact_py)]"

text \<open>
  The loop of \<^verbatim>\<open>get_function\<close> over the keys. The assignment
  \<^verbatim>\<open>exp = exp[len(function)+1:-1]\<close> overwrites the loop's own \<^verbatim>\<open>exp\<close>: after a name
  whose interior is unbalanced, the later names are tested against that interior.
\<close>

fun get_function_loop :: "string list \<Rightarrow> string \<Rightarrow> string option" where
  "get_function_loop [] expr = None"
| "get_function_loop (function # rest) expr =
     (if startswith expr (function @ ''('') \<and> endswith expr '')''
      then
        let expr' = slice_to_last (length function + 1) expr
        in if parens_are_balanced expr' then Some function
           else get_function_loop rest expr'
      else get_function_loop rest expr)"

definition get_function :: "string \<Rightarrow> string option" where
  "get_function expr = get_function_loop (map fst FUNCTION_LIST) expr"

subsection \<open>Numeric literals\<close>

text \<open>
  Python's \<^verbatim>\<open>float(str)\<close>. A \<open>char\<close> has eight bits and stands for the code point of
  the same number, so a \<open>string\<close> is a Python string of code points below 256; strings
  with higher code points are outside the model. Surrounding whitespace is stripped, then
  \<^verbatim>\<open>[sign] (digitpart ["." [digitpart]] | "." digitpart) [("e"|"E") [sign] digitpart]\<close>
  where a digitpart is digits with single underscores between them, or, in any case of
  letters, \<^verbatim>\<open>inf\<close>, \<^verbatim>\<open>infinity\<close> or \<^verbatim>\<open>nan\<close>. Anything else raises \<^verbatim>\<open>ValueError\<close>.
  Below 256 the only decimal digits are \<^verbatim>\<open>0\<close> to \<^verbatim>\<open>9\<close>.
\<close>

definition is_digit :: "char \<Rightarrow> bool" where
  "is_digit c = (c \<in> set ''0123456789'')"

definition digit_value :: "char \<Rightarrow> nat" where
  "digit_value c = of_char c - 48"

fun digitpart :: "string \<Rightarrow> bool" where
  "digitpart [] = False"
| "digitpart [c] = is_digit c"
| "digitpart (c # d # rest) =
     (is_digit c \<and> (if d = CHR ''_'' then digitpart rest else digitpart (d # rest)))"

definition digits_value :: "string \<Rightarrow> nat" where
  "digits_value s = foldl (\<lambda>acc c. 10 * acc + digit_value c) 0 (filter is_digit s)"

text \<open>
  The whitespace that \<^verbatim>\<open>float\<close> strips: the ASCII characters 9 to 13 and 32, and below
  256 the two other code points that \<^verbatim>\<open>float\<close> reads as a blank, U+0085 (133) and U+00A0
  (160). The separators 28 to 31, which \<^verbatim>\<open>str.isspace\<close> accepts, are not stripped.
\<close>

definition is_space :: "char \<Rightarrow> bool" where
  "is_space c = (of_char c \<in> set [9, 10, 11, 12, 13, 32, 133, 160 :: nat])"

definition strip :: "string \<Rightarrow> string" where
  "strip s = rev (dropWhile is_space (rev (dropWhile is_space s)))"

definition lower :: "char \<Rightarrow> char" where
  "lower c =
     (case map_of (zip ''ABCDEFGHIJKLMNOPQRSTUVWXYZ'' ''abcdefghijklmnopqrstuvwxyz'') c of
        None \<Rightarrow> c
      | Some d \<Rightarrow> d)"

definition parse_number :: "string \<Rightarrow> real option" where
  "parse_number s =
     (let ip = takeWhile (\<lambda>c. c \<noteq> CHR ''.'') s;
          r = dropWhile (\<lambda>c. c \<noteq> CHR ''.'') s
      in if r = [] then (if digitpart ip then Some (real (digits_value ip)) else None)
         else
           let fp = tl r
           in if (digitpart fp \<and> (ip = [] \<or> digitpart ip)) \<or> (fp = [] \<and> digitpart ip)
              then Some (real (digits_value ip)
                         + real (digits_value fp) / 10 ^ length (filter is_digit fp))
              else None)"

definition parse_exponent :: "string \<Rightarrow> int option" where
  "parse_exponent s =
     (if s \<noteq> [] \<and> hd s = CHR ''-'' then
        (if digitpart (tl s) then Some (- int (digits_value (tl s))) else None)
      else if s \<noteq> [] \<and> hd s = CHR ''+'' then
        (if digitpart (tl s) then Some (int (digits_value (tl s))) else None)
      else if digitpart s then Some (int (digits_value s)) else None)"

definition parse_floatnumber :: "string \<Rightarrow> real option" where
  "parse_floatnumber s =
     (let m = takeWhile (\<lambda>c. c \<noteq> CHR ''e'' \<and> c \<noteq> CHR ''E'') s;
          r = dropWhile (\<lambda>c. c \<noteq> CHR ''e'' \<and> c \<noteq> CHR ''E'') s
      in if r = [] then parse_number m
         else
           (case parse_number m of
              None \<Rightarrow> None
            | Some a \<Rightarrow>
               (case parse_exponent (tl r) of
                  None \<Rightarrow> None
                | Some k \<Rightarrow> Some (a * 10 powi k))))"

definition float_py :: "string \<Rightarrow> error + real" where
  "float_py s0 =
     (let s = strip s0;
          neg = (s \<noteq> [] \<and> hd s = CHR ''-'');
          body = (if s \<noteq> [] \<and> (hd s = CHR ''-'' \<or> hd s = CHR ''+'') then tl s else s)
      in if map lower body \<in> set [''inf'', ''infinity'', ''nan''] then Inl OutsideReals
         else
           (case parse_floatnumber body of
              None \<Rightarrow> Inl ValueError
            | Some v \<Rightarrow> Inr (if neg then - v else v)))"

text \<open>\<^verbatim>\<open>is_number\<close> catches \<^verbatim>\<open>ValueError\<close> only.\<close>

definition is_number :: "string \<Rightarrow> bool" where
  "is_number num = (float_py num \<noteq> Inl ValueError)"

subsection \<open>Evaluation of an operator\<close>

definition evaluate_operator :: "string \<Rightarrow> real \<Rightarrow> real \<Rightarrow> error + real" where
  "evaluate_operator token arg1 arg2 =
     (if token = ''^'' then py_pow arg1 arg2
      else if token = ''*'' then Inr (arg1 * arg2)
      else if token = ''/'' then py_truediv arg1 arg2
      else if token = ''+'' then Inr (arg1 + arg2)
      else if token = ''-'' then Inr (arg1 - arg2)
      else Inl ExpressionParsingError)"

subsection \<open>The class \<^verbatim>\<open>MathExp\<close>\<close>

text \<open>
  An object of the class, with its fields in this order: \<^verbatim>\<open>token\<close>, \<^verbatim>\<open>typ\<close>, \<^verbatim>\<open>left\<close>,
  \<^verbatim>\<open>right\<close> (\<open>None\<close> is Python's \<^verbatim>\<open>None\<close>) and \<^verbatim>\<open>variables_table\<close>, a dictionary
  from names to floats.
\<close>

datatype mathexp =
  MathExp string int "mathexp option" "mathexp option" "string \<rightharpoonup> real"

definition MATHEXP_LITERAL :: int where
  "MATHEXP_LITERAL = 0"

definition MATHEXP_FUNCTION :: int where
  "MATHEXP_FUNCTION = 1"

definition MATHEXP_OPERATOR :: int where
  "MATHEXP_OPERATOR = 2"

lemmas MATHEXP_defs = MATHEXP_LITERAL_def MATHEXP_FUNCTION_def MATHEXP_OPERATOR_def

subsection \<open>Construction\<close>

text \<open>
  Every recursive call of the constructor is on a string shorter than its argument: a
  split position is neither the first nor the last index, and normalisation adds at most
  the one character \<^verbatim>\<open>0\<close>.
\<close>

lemma length_remove_extra_parens: "length (remove_extra_parens s) \<le> length s"
proof (induction s rule: remove_extra_parens.induct)
  case (1 expr)
  show ?case
  proof (cases "startswith expr ''('' \<and> endswith expr '')'' \<and> parens_are_balanced (slice_to_last 1 expr)")
    case True
    with 1 have "length (remove_extra_parens (slice_to_last 1 expr)) \<le> length (slice_to_last 1 expr)"
      by simp
    moreover have "length (slice_to_last 1 expr) < length expr"
      using True by (simp add: length_slice_to_last_less)
    ultimately show ?thesis
      using True by (subst remove_extra_parens.simps) simp
  next
    case False
    then show ?thesis by (subst remove_extra_parens.simps) auto
  qed
qed

lemma exp_check_length:
  assumes "exp_check exp0 = Inr e"
  shows "exp0 \<noteq> [] \<and> length e \<le> length exp0 + 1"
proof -
  let ?e1 = "filter (\<lambda>c. c \<noteq> CHR '' '') exp0"
  let ?e2 = "remove_extra_parens ?e1"
  have ne: "?e2 \<noteq> []" using assms by (auto simp: exp_check_def Let_def split: if_splits)
  have "length ?e2 \<le> length ?e1" by (rule length_remove_extra_parens)
  also have "\<dots> \<le> length exp0" by simp
  finally have le: "length ?e2 \<le> length exp0" .
  from ne le have "exp0 \<noteq> []" by auto
  moreover have "length e \<le> length ?e2 + 1"
    using assms by (auto simp: exp_check_def Let_def split: if_splits)
  ultimately show ?thesis using le by simp
qed

lemma lookup_loop_range:
  "lookup_loop expr rest pos level i = Inr p \<Longrightarrow> -1 \<le> i \<Longrightarrow>
   int (length expr) = i + 1 + int (length rest) \<Longrightarrow>
   p = pos \<or> (0 < p \<and> p < int (length expr) - 1)"
proof (induction rest arbitrary: pos level i)
  case Nil
  then show ?case by simp
next
  case (Cons token rest)
  have inv: "-1 \<le> i + 1" "int (length expr) = (i + 1) + 1 + int (length rest)"
    using Cons.prems by simp_all
  note IH = Cons.IH[OF _ inv]
  show ?case
    using Cons.prems(1) IH[of pos "level + 1"] IH[of pos "level - 1"] IH[of pos level] IH[of "i+1" level] Cons.prems(2) inv
    by (auto simp: Let_def split: if_splits option.splits)
qed

lemma lookup_top_operator_range:
  "lookup_top_operator expr = Inr p \<Longrightarrow> p = -1 \<or> (0 < p \<and> p < int (length expr) - 1)"
  unfolding lookup_top_operator_def by (drule lookup_loop_range) auto

function MathExp_init :: "string \<Rightarrow> error + mathexp" where
  "MathExp_init exp0 =
     (case exp_check exp0 of
        Inl e \<Rightarrow> Inl e
      | Inr expr \<Rightarrow>
         (case get_function expr of
            Some function \<Rightarrow>
              (let arg = slice_to_last (length function + 1) expr
               in case MathExp_init arg of
                    Inl e \<Rightarrow> Inl e
                  | Inr r \<Rightarrow> Inr (MathExp function MATHEXP_FUNCTION None (Some r) Map.empty))
          | None \<Rightarrow>
              (case lookup_top_operator expr of
                 Inl e \<Rightarrow> Inl e
               | Inr top_operator_pos \<Rightarrow>
                  if top_operator_pos \<ge> 0 then
                    (let exp_izq = take (nat top_operator_pos) expr;
                         exp_der = drop (nat top_operator_pos + 1) expr
                     in case MathExp_init exp_izq of
                          Inl e \<Rightarrow> Inl e
                        | Inr l \<Rightarrow>
                           (case MathExp_init exp_der of
                              Inl e \<Rightarrow> Inl e
                            | Inr r \<Rightarrow>
                               Inr (MathExp [expr ! nat top_operator_pos] MATHEXP_OPERATOR
                                      (Some l) (Some r) Map.empty)))
                  else Inr (MathExp expr MATHEXP_LITERAL None None Map.empty))))"
  by pat_completeness auto
termination
proof (relation "measure length", goal_cases)
  case 1
  show ?case by simp
next
  case (2 exp0 expr p exp_izq exp_der)
  from exp_check_length[OF 2(1)] lookup_top_operator_range[OF 2(3)] 2(4) 2(5)
  show ?case by auto
next
  case (3 exp0 expr p exp_izq exp_der l)
  from exp_check_length[OF 3(1)] lookup_top_operator_range[OF 3(3)] 3(4) 3(6)
  show ?case by auto
next
  case (4 exp0 expr f arg)
  have a: "length arg = length expr - (length f + 1) - 1"
    using 4(3) by (simp add: slice_to_last_def)
  have b: "0 < length exp0" "length expr \<le> length exp0 + 1"
    using exp_check_length[OF 4(1)] by auto
  show ?case
    unfolding in_measure using a b by linarith
qed

declare MathExp_init.simps [simp del]

fun evaluate :: "mathexp \<Rightarrow> (string \<rightharpoonup> real) option \<Rightarrow> error + real" where
  "evaluate (MathExp token typ left right variables_table) tmp_variables_table =
     (let tmp_variables_table =
            (case tmp_variables_table of None \<Rightarrow> variables_table | Some t \<Rightarrow> t)
      in if typ = MATHEXP_LITERAL then
           (if is_number token then float_py token
            else
              (case tmp_variables_table token of
                 None \<Rightarrow> Inl (SymbolNotFound token)
               | Some v \<Rightarrow> Inr v))
         else if typ = MATHEXP_FUNCTION then
           (case right of
              None \<Rightarrow> Inl AttributeError
            | Some r \<Rightarrow>
               (case evaluate r (Some tmp_variables_table) of
                  Inl e \<Rightarrow> Inl e
                | Inr arg \<Rightarrow>
                   (case map_of FUNCTION_LIST token of
                      None \<Rightarrow> Inl (KeyError token)
                    | Some f \<Rightarrow> f arg)))
         else if typ = MATHEXP_OPERATOR then
           (case left of
              None \<Rightarrow> Inl AttributeError
            | Some l \<Rightarrow>
               (case evaluate l (Some tmp_variables_table) of
                  Inl e \<Rightarrow> Inl e
                | Inr left_value \<Rightarrow>
                   (case right of
                      None \<Rightarrow> Inl AttributeError
                    | Some r \<Rightarrow>
                       (case evaluate r (Some tmp_variables_table) of
                          Inl e \<Rightarrow> Inl e
                        | Inr right_value \<Rightarrow> evaluate_operator token left_value right_value))))
         else Inl ExpressionParsingError)"

text \<open>
  A method call on an object returns its result together with the object after the call.
  \<^verbatim>\<open>evaluate\<close> assigns to its local \<^verbatim>\<open>tmp_variables_table\<close> and \<^verbatim>\<open>res\<close> only, never to
  a field or an entry of a dictionary.
\<close>

definition call_evaluate ::
    "(string \<rightharpoonup> real) option \<Rightarrow> mathexp \<Rightarrow> (error + real) \<times> mathexp" where
  "call_evaluate tmp_variables_table self = (evaluate self tmp_variables_table, self)"

subsection \<open>The binding methods\<close>

fun add_variable :: "string \<Rightarrow> real \<Rightarrow> mathexp \<Rightarrow> mathexp" where
  "add_variable key v (MathExp token typ left right variables_table) =
     MathExp token typ left right (variables_table(key \<mapsto> v))"

text \<open>\<^verbatim>\<open>dict.pop(key)\<close> with no default raises \<^verbatim>\<open>KeyError\<close> for a missing key.\<close>

fun remove_variable :: "string \<Rightarrow> mathexp \<Rightarrow> (error + unit) \<times> mathexp" where
  "remove_variable key (MathExp token typ left right variables_table) =
     (case variables_table key of
        None \<Rightarrow> (Inl (KeyError key), MathExp token typ left right variables_table)
      | Some v \<Rightarrow> (Inr (), MathExp token typ left right (variables_table(key := None))))"

fun get_variable :: "string \<Rightarrow> mathexp \<Rightarrow> error + real" where
  "get_variable key (MathExp token typ left right variables_table) =
     (case variables_table key of None \<Rightarrow> Inl (KeyError key) | Some v \<Rightarrow> Inr v)"

fun get_variables_table :: "mathexp \<Rightarrow> (string \<rightharpoonup> real)" where
  "get_variables_table (MathExp token typ left right variables_table) = variables_table"

fun set_variables_table :: "(string \<rightharpoonup> real) \<Rightarrow> mathexp \<Rightarrow> mathexp" where
  "set_variables_table tmp_variables_table (MathExp token typ left right variables_table) =
     MathExp token typ left right tmp_variables_table"

subsection \<open>The objects the constructor builds\<close>

text \<open>
  The three shapes of object that \<^verbatim>\<open>__init__\<close> assigns, each with an empty
  \<^verbatim>\<open>variables_table\<close>.
\<close>

definition literal_node :: "string \<Rightarrow> mathexp" where
  "literal_node token = MathExp token MATHEXP_LITERAL None None Map.empty"

definition function_node :: "string \<Rightarrow> mathexp \<Rightarrow> mathexp" where
  "function_node token arg = MathExp token MATHEXP_FUNCTION None (Some arg) Map.empty"

definition operator_node :: "char \<Rightarrow> mathexp \<Rightarrow> mathexp \<Rightarrow> mathexp" where
  "operator_node token l r = MathExp [token] MATHEXP_OPERATOR (Some l) (Some r) Map.empty"

subsection \<open>The running count of parentheses, as the specification words it\<close>

text \<open>
  The count of \<^verbatim>\<open>(\<close> minus the count of \<^verbatim>\<open>)\<close> in a string, and the specification's
  condition of imbalance: the running count goes negative at some point, or is nonzero
  at the end.
\<close>

definition paren_delta :: "char \<Rightarrow> int" where
  "paren_delta c = (if c = CHR ''('' then 1 else if c = CHR '')'' then -1 else 0)"

fun paren_count :: "string \<Rightarrow> int" where
  "paren_count [] = 0"
| "paren_count (c # cs) = paren_delta c + paren_count cs"

definition unbalanced :: "string \<Rightarrow> bool" where
  "unbalanced s =
     ((\<exists>n \<in> {0..length s}. paren_count (take n s) < 0) \<or> paren_count s \<noteq> 0)"

subsection \<open>Auxiliary notions for the statements\<close>

text \<open>A name without parentheses; every key of \<^verbatim>\<open>FUNCTION_LIST\<close> is one.\<close>

definition no_parens :: "string \<Rightarrow> bool" where
  "no_parens f = (CHR ''('' \<notin> set f \<and> CHR '')'' \<notin> set f)"

text \<open>
  The priority of an operator character, and the positions of a string that the scan of
  \<^verbatim>\<open>lookup_top_operator\<close> takes as candidates for the split: an operator at parenthesis
  depth 0, neither at the first nor at the last index, and no \<^verbatim>\<open>+\<close> or \<^verbatim>\<open>-\<close> right
  after another operator.
\<close>

definition priority :: "char \<Rightarrow> int" where
  "priority c = (case OPERATOR_PRIORITY c of None \<Rightarrow> 0 | Some p \<Rightarrow> p)"

definition candidate :: "string \<Rightarrow> nat \<Rightarrow> bool" where
  "candidate expr i =
     (i < length expr \<and> is_operator (expr ! i) \<and> paren_count (take i expr) = 0 \<and>
      0 < i \<and> i \<noteq> length expr - 1 \<and>
      \<not> ((expr ! i = CHR ''+'' \<or> expr ! i = CHR ''-'') \<and> is_operator (expr ! (i - 1))))"

text \<open>
  What the scan holds in \<^verbatim>\<open>pos\<close> after the first \<open>k\<close> characters: \<open>-1\<close> when there is no
  candidate among them, and otherwise the last of the candidates of least priority.
\<close>

definition best :: "string \<Rightarrow> nat \<Rightarrow> int \<Rightarrow> bool" where
  "best expr k pos =
     (if pos = -1 then (\<forall>q < k. \<not> candidate expr q)
      else 0 \<le> pos \<and> nat pos < k \<and> candidate expr (nat pos) \<and>
           (\<forall>q < k. candidate expr q \<longrightarrow>
              priority (expr ! nat pos) \<le> priority (expr ! q) \<and>
              (nat pos < q \<longrightarrow> priority (expr ! nat pos) < priority (expr ! q))))"

subsection \<open>Operator chains and their reading by precedence\<close>

text \<open>
  The input strings of the specification's first testable property: chains of atoms
  (numeric literals or names) and the binary operators, with parenthesised sub-chains.
  A \<open>chain\<close> is the reading of such a string as a term; \<open>render\<close> writes the term as
  its string. An atom is a nonempty string without operators, parentheses and blanks.
\<close>

definition plain :: "char \<Rightarrow> bool" where
  "plain c = (\<not> is_operator c \<and> c \<noteq> CHR ''('' \<and> c \<noteq> CHR '')'')"

definition atom :: "string \<Rightarrow> bool" where
  "atom a = (a \<noteq> [] \<and> list_all (\<lambda>c. plain c \<and> c \<noteq> CHR '' '') a)"

datatype chain = Atom string | Paren chain | Bin chain char chain

fun render :: "chain \<Rightarrow> string" where
  "render (Atom a) = a"
| "render (Paren e) = ''('' @ render e @ '')''"
| "render (Bin l c r) = render l @ [c] @ render r"

text \<open>
  How tightly the top of a term binds: an atom and a parenthesised term bind tightest
  (0, above every operator's priority), a binary term binds as its operator does.
\<close>

fun top_priority :: "chain \<Rightarrow> int" where
  "top_priority (Atom a) = 0"
| "top_priority (Paren e) = 0"
| "top_priority (Bin l c r) = priority c"

text \<open>
  A term is the reading of its string by precedence when no operand binds weaker than
  its operator. With every operator associating to the left, the left operand may bind
  as its operator does and the right operand must bind tighter (\<open>left_chain\<close>). In
  standard arithmetic \<^verbatim>\<open>^\<close> associates to the right, as Python's \<^verbatim>\<open>**\<close> does: there it
  is the right operand of \<^verbatim>\<open>^\<close> that may bind as \<^verbatim>\<open>^\<close> does (\<open>standard_chain\<close>).
\<close>

fun left_chain :: "chain \<Rightarrow> bool" where
  "left_chain (Atom a) = atom a"
| "left_chain (Paren e) = left_chain e"
| "left_chain (Bin l c r) =
     (is_operator c \<and> left_chain l \<and> left_chain r \<and>
      priority c \<le> top_priority l \<and> priority c < top_priority r)"

fun standard_chain :: "chain \<Rightarrow> bool" where
  "standard_chain (Atom a) = atom a"
| "standard_chain (Paren e) = standard_chain e"
| "standard_chain (Bin l c r) =
     (is_operator c \<and> standard_chain l \<and> standard_chain r \<and>
      (if c = CHR ''^''
       then priority c < top_priority l \<and> priority c \<le> top_priority r
       else priority c \<le> top_priority l \<and> priority c < top_priority r))"

text \<open>
  The value of a term: an atom is a number or a name bound in the table, parentheses do
  not change the value, and a binary term applies its operator to the values of its
  operands, the left one first.
\<close>

fun std_eval :: "chain \<Rightarrow> (string \<rightharpoonup> real) \<Rightarrow> error + real" where
  "std_eval (Atom a) tab =
     (if is_number a then float_py a
      else (case tab a of None \<Rightarrow> Inl (SymbolNotFound a) | Some v \<Rightarrow> Inr v))"
| "std_eval (Paren e) tab = std_eval e tab"
| "std_eval (Bin l c r) tab =
     (case std_eval l tab of
        Inl e \<Rightarrow> Inl e
      | Inr x \<Rightarrow>
         (case std_eval r tab of
            Inl e \<Rightarrow> Inl e
          | Inr y \<Rightarrow> evaluate_operator [c] x y))"

text \<open>The object that stands for a term: parentheses leave no node.\<close>

fun tree_of :: "chain \<Rightarrow> mathexp" where
  "tree_of (Atom a) = literal_node a"
| "tree_of (Paren e) = tree_of e"
| "tree_of (Bin l c r) = operator_node c (tree_of l) (tree_of r)"

text \<open>An operator at parenthesis depth 0.\<close>

definition top_op :: "string \<Rightarrow> nat \<Rightarrow> bool" where
  "top_op s q = (q < length s \<and> is_operator (s ! q) \<and> paren_count (take q s) = 0)"

text \<open>Every prefix of the string has a non-negative running count.\<close>

definition nonneg_prefixes :: "string \<Rightarrow> bool" where
  "nonneg_prefixes s = (\<forall>n. 0 \<le> paren_count (take n s))"


subsection \<open>The value of an object in a binding\<close>

text \<open>
  The value of an expression tree in one binding \<open>tab\<close>, by recursion over the tree: a
  literal leaf is a number or a name looked up in \<open>tab\<close>, a function node applies its
  function to the value of its argument in \<open>tab\<close>, an operator node applies its operator
  to the values of its two operands in \<open>tab\<close>, the left one first. No
  \<^verbatim>\<open>variables_table\<close> of the tree takes part.
\<close>

fun value_of :: "(string \<rightharpoonup> real) \<Rightarrow> mathexp \<Rightarrow> error + real" where
  "value_of tab (MathExp token typ left right variables_table) =
     (if typ = MATHEXP_LITERAL then
        (if is_number token then float_py token
         else (case tab token of None \<Rightarrow> Inl (SymbolNotFound token) | Some v \<Rightarrow> Inr v))
      else if typ = MATHEXP_FUNCTION then
        (case right of
           None \<Rightarrow> Inl AttributeError
         | Some r \<Rightarrow>
            (case value_of tab r of
               Inl e \<Rightarrow> Inl e
             | Inr arg \<Rightarrow>
                (case map_of FUNCTION_LIST token of
                   None \<Rightarrow> Inl (KeyError token)
                 | Some f \<Rightarrow> f arg)))
      else if typ = MATHEXP_OPERATOR then
        (case left of
           None \<Rightarrow> Inl AttributeError
         | Some l \<Rightarrow>
            (case value_of tab l of
               Inl e \<Rightarrow> Inl e
             | Inr left_value \<Rightarrow>
                (case right of
                   None \<Rightarrow> Inl AttributeError
                 | Some r \<Rightarrow>
                    (case value_of tab r of
                       Inl e \<Rightarrow> Inl e
                     | Inr right_value \<Rightarrow> evaluate_operator token left_value right_value))))
      else Inl ExpressionParsingError)"

text \<open>
  The tree with the \<^verbatim>\<open>variables_table\<close> of every node, the root and all nodes below it,
  replaced by \<open>vt\<close>.
\<close>

fun set_all_tables :: "(string \<rightharpoonup> real) \<Rightarrow> mathexp \<Rightarrow> mathexp" where
  "set_all_tables vt (MathExp token typ left right variables_table) =
     MathExp token typ
       (case left of None \<Rightarrow> None | Some l \<Rightarrow> Some (set_all_tables vt l))
       (case right of None \<Rightarrow> None | Some r \<Rightarrow> Some (set_all_tables vt r))
       vt"


section \<open>Lemmas\<close>

subsection \<open>Evaluating the definitions on concrete inputs\<close>

lemmas init_eval = MathExp_init.simps exp_check_def parens_are_balanced_def
  remove_extra_parens.simps startswith_def endswith_def slice_to_last_def get_function_def
  FUNCTION_LIST_def lookup_top_operator_def is_operator_def OPERATOR_PRIORITY_def Let_def

lemmas float_eval = is_number_def float_py_def strip_def is_space_def lower_def
  parse_floatnumber_def parse_number_def parse_exponent_def is_digit_def digits_value_def
  digit_value_def Let_def

lemmas node_defs = literal_node_def function_node_def operator_node_def MATHEXP_defs


subsection \<open>Parenthesis balance and the running count\<close>

lemma paren_count_append: "paren_count (xs @ ys) = paren_count xs + paren_count ys"
  by (induction xs) simp_all

lemma balanced_loop_Cons:
  "balanced_loop (c # cs) i =
     (0 \<le> i + paren_delta c \<and> balanced_loop cs (i + paren_delta c))"
  by (auto simp: Let_def paren_delta_def)

lemma all_le_Suc: "(\<forall>n \<le> Suc k. P n) \<longleftrightarrow> P 0 \<and> (\<forall>m \<le> k. P (Suc m))"
proof
  assume a: "\<forall>n \<le> Suc k. P n"
  then show "P 0 \<and> (\<forall>m \<le> k. P (Suc m))" by auto
next
  assume b: "P 0 \<and> (\<forall>m \<le> k. P (Suc m))"
  show "\<forall>n \<le> Suc k. P n"
  proof (intro allI impI)
    fix n assume "n \<le> Suc k"
    then show "P n" using b by (cases n) auto
  qed
qed

lemma balanced_loop_iff:
  "0 \<le> i \<Longrightarrow>
   balanced_loop s i \<longleftrightarrow>
     (\<forall>n \<le> length s. 0 \<le> i + paren_count (take n s)) \<and> i + paren_count s = 0"
proof (induction s arbitrary: i)
  case Nil
  then show ?case by simp
next
  case (Cons c cs)
  let ?d = "paren_delta c"
  show ?case
  proof (cases "0 \<le> i + ?d")
    case False
    have "\<not> (\<forall>n \<le> length (c # cs). 0 \<le> i + paren_count (take n (c # cs)))"
    proof
      assume a: "\<forall>n \<le> length (c # cs). 0 \<le> i + paren_count (take n (c # cs))"
      from a[rule_format, of "Suc 0"] have "0 \<le> i + ?d" by simp
      with False show False by simp
    qed
    moreover have "\<not> balanced_loop (c # cs) i"
      using False by (subst balanced_loop_Cons) simp
    ultimately show ?thesis by blast
  next
    case True
    have "balanced_loop (c # cs) i = balanced_loop cs (i + ?d)"
      using True by (subst balanced_loop_Cons) simp
    also have "\<dots> \<longleftrightarrow> (\<forall>n \<le> length cs. 0 \<le> (i + ?d) + paren_count (take n cs)) \<and> (i + ?d) + paren_count cs = 0"
      by (rule Cons.IH[OF True])
    also have "\<dots> \<longleftrightarrow> (\<forall>n \<le> length (c # cs). 0 \<le> i + paren_count (take n (c # cs))) \<and> i + paren_count (c # cs) = 0"
      unfolding length_Cons all_le_Suc take_Suc_Cons paren_count.simps
      using Cons.prems by (simp add: add.assoc)
    finally show ?thesis .
  qed
qed

lemma parens_are_balanced_iff_not_unbalanced: "parens_are_balanced s \<longleftrightarrow> \<not> unbalanced s"
proof -
  have "(\<exists>n \<in> {0..length s}. paren_count (take n s) < 0)
          \<longleftrightarrow> \<not> (\<forall>n \<le> length s. 0 \<le> paren_count (take n s))"
    by (auto simp: not_le)
  then show ?thesis
    unfolding parens_are_balanced_def unbalanced_def
    using balanced_loop_iff[of 0 s] by simp
qed

lemma MathExp_init_unbalanced:
  "\<not> parens_are_balanced s \<Longrightarrow> MathExp_init s = Inl MalformedExpression"
  by (simp add: MathExp_init.simps exp_check_def)

subsection \<open>Function detection\<close>

text \<open>
  Wrapping a balanced string in \<^verbatim>\<open>name(\<close> and \<^verbatim>\<open>)\<close> gives a balanced string. So once
  the loop of \<^verbatim>\<open>get_function\<close> has overwritten its string with an unbalanced interior,
  no later name is returned: a name is only ever returned against the string passed in.
\<close>

lemma balanced_loop_no_parens:
  "no_parens f \<Longrightarrow> 0 \<le> i \<Longrightarrow> balanced_loop (f @ s) i = balanced_loop s i"
  by (induction f) (auto simp: no_parens_def Let_def)

lemma balanced_loop_append:
  "balanced_loop xs j \<Longrightarrow> 0 \<le> j \<Longrightarrow> 0 \<le> k \<Longrightarrow>
   balanced_loop (xs @ ys) (j + k) = balanced_loop ys k"
proof (induction xs arbitrary: j)
  case Nil
  then show ?case by simp
next
  case (Cons c cs)
  from Cons.prems(1) have a: "0 \<le> j + paren_delta c" "balanced_loop cs (j + paren_delta c)"
    by (simp_all add: balanced_loop_Cons del: balanced_loop.simps)
  have "balanced_loop ((c # cs) @ ys) (j + k)
          = (0 \<le> j + k + paren_delta c \<and> balanced_loop (cs @ ys) (j + k + paren_delta c))"
    by (simp add: balanced_loop_Cons del: balanced_loop.simps)
  also have "\<dots> = balanced_loop (cs @ ys) ((j + paren_delta c) + k)"
    using a(1) Cons.prems(3) by (simp add: add.commute add.left_commute)
  also have "\<dots> = balanced_loop ys k"
    by (rule Cons.IH[OF a(2) a(1) Cons.prems(3)])
  finally show ?case .
qed

lemma balanced_wrap:
  assumes "no_parens f" "parens_are_balanced b"
  shows "parens_are_balanced (f @ ''('' @ b @ '')'')"
proof -
  have "balanced_loop (f @ ''('' @ b @ '')'') 0 = balanced_loop (''('' @ b @ '')'') 0"
    using assms(1) by (simp add: balanced_loop_no_parens)
  also have "\<dots> = balanced_loop (b @ '')'') (0 + 1)"
    by (simp add: Let_def)
  also have "\<dots> = balanced_loop '')'' 1"
    using balanced_loop_append[of b 0 1 "'')''"] assms(2) by (simp add: parens_are_balanced_def)
  also have "\<dots>" by (simp add: Let_def)
  finally show ?thesis by (simp add: parens_are_balanced_def)
qed

lemma wrap_decompose:
  assumes "startswith expr (f @ ''('')" "endswith expr '')''"
  shows "expr = f @ ''('' @ slice_to_last (length f + 1) expr @ '')''"
proof -
  let ?k = "length f + 1"
  have t: "take ?k expr = f @ ''(''" using assms(1) by (simp add: startswith_def)
  from assms(2) have ge: "1 \<le> length expr" and dr: "drop (length expr - 1) expr = '')''"
    by (simp_all add: endswith_def)
  have ne: "expr \<noteq> []" using ge by auto
  have "last expr = last (drop (length expr - 1) expr)"
    using ne by (simp add: last_drop)
  then have l: "last expr = CHR '')''" using dr by simp
  have len: "?k \<le> length expr"
    using t by (metis length_append length_take min.cobounded1 length_Cons list.size(3) One_nat_def add.commute plus_1_eq_Suc)
  have "drop ?k expr \<noteq> []"
  proof
    assume "drop ?k expr = []"
    then have "expr = f @ ''(''" using t by (metis append_Nil2 append_take_drop_id)
    with l show False by simp
  qed
  then have d: "drop ?k expr = butlast (drop ?k expr) @ [last expr]"
    by (metis append_butlast_last_id last_drop drop_eq_Nil not_le)
  have "expr = take ?k expr @ drop ?k expr" by simp
  also have "\<dots> = (f @ ''('') @ butlast (drop ?k expr) @ [last expr]"
    using t d by simp
  finally show ?thesis using l by (simp add: slice_to_last_def)
qed

lemma get_function_loop_unbalanced:
  "\<forall>f \<in> set fs. no_parens f \<Longrightarrow> \<not> parens_are_balanced expr \<Longrightarrow>
   get_function_loop fs expr = None"
proof (induction fs arbitrary: expr)
  case Nil
  show ?case by simp
next
  case (Cons f fs)
  have np: "\<forall>f \<in> set fs. no_parens f" "no_parens f" using Cons.prems(1) by simp_all
  show ?case
  proof (cases "startswith expr (f @ ''('') \<and> endswith expr '')''")
    case False
    then show ?thesis using Cons.IH[OF np(1) Cons.prems(2)] by auto
  next
    case True
    let ?e = "slice_to_last (length f + 1) expr"
    have eq: "expr = f @ ''('' @ ?e @ '')''" using True by (intro wrap_decompose) simp_all
    have nb: "\<not> parens_are_balanced ?e"
    proof
      assume "parens_are_balanced ?e"
      from balanced_wrap[OF np(2) this] eq Cons.prems(2) show False by simp
    qed
    from Cons.IH[OF np(1) nb] True nb show ?thesis by (simp add: Let_def)
  qed
qed

lemma get_function_loop_Some:
  "\<forall>f \<in> set fs. no_parens f \<Longrightarrow> get_function_loop fs expr = Some F \<Longrightarrow>
   F \<in> set fs \<and> startswith expr (F @ ''('') \<and> endswith expr '')'' \<and>
   parens_are_balanced (slice_to_last (length F + 1) expr)"
proof (induction fs)
  case Nil
  then show ?case by simp
next
  case (Cons f fs)
  have np: "\<forall>f \<in> set fs. no_parens f" using Cons.prems(1) by simp
  show ?case
  proof (cases "startswith expr (f @ ''('') \<and> endswith expr '')''")
    case False
    then have "get_function_loop fs expr = Some F" using Cons.prems(2) by auto
    from Cons.IH[OF np this] show ?thesis by simp
  next
    case True
    let ?e = "slice_to_last (length f + 1) expr"
    show ?thesis
    proof (cases "parens_are_balanced ?e")
      case b: True
      then have "F = f" using True Cons.prems(2) by (simp add: Let_def)
      with True b show ?thesis by simp
    next
      case nb: False
      from get_function_loop_unbalanced[OF np nb] True nb Cons.prems(2)
      show ?thesis by (simp add: Let_def)
    qed
  qed
qed

lemma FUNCTION_LIST_no_parens: "\<forall>f \<in> set (map fst FUNCTION_LIST). no_parens f"
  by (simp add: FUNCTION_LIST_def no_parens_def)

lemma get_function_Some:
  "get_function expr = Some F \<Longrightarrow>
   F \<in> set (map fst FUNCTION_LIST) \<and> startswith expr (F @ ''('') \<and> endswith expr '')'' \<and>
   parens_are_balanced (slice_to_last (length F + 1) expr)"
  unfolding get_function_def by (rule get_function_loop_Some[OF FUNCTION_LIST_no_parens])

subsection \<open>The scan for the top-level operator\<close>

text \<open>
  One step of the loop of \<^verbatim>\<open>lookup_top_operator\<close> keeps the invariant \<open>best\<close>; so the
  scan never raises, returns \<open>-1\<close> exactly when there is no candidate, and otherwise
  returns the last of the candidates of least priority, which is the only position with
  that property.
\<close>

lemma is_operator_priority:
  "is_operator c \<Longrightarrow> OPERATOR_PRIORITY c = Some (priority c)"
  by (auto simp: is_operator_def OPERATOR_PRIORITY_def priority_def)

lemma is_operator_no_paren:
  "is_operator c \<Longrightarrow> c \<noteq> CHR ''('' \<and> c \<noteq> CHR '')'' \<and> paren_delta c = 0"
  by (auto simp: is_operator_def paren_delta_def)

lemma not_operator_paren: "\<not> is_operator CHR ''(''" "\<not> is_operator CHR '')''"
  by (simp_all add: is_operator_def)

lemma paren_count_snoc: "paren_count (xs @ [c]) = paren_count xs + paren_delta c"
  by (simp add: paren_count_append)

lemma best_step:
  assumes "best expr k pos"
  shows "best expr (Suc k)
           (if candidate expr k \<and> (pos = -1 \<or> priority (expr ! k) \<le> priority (expr ! nat pos))
            then int k else pos)"
proof (cases "candidate expr k")
  case False
  with assms show ?thesis by (auto simp: best_def less_Suc_eq)
next
  case True
  show ?thesis
  proof (cases "pos = -1")
    case True
    with assms \<open>candidate expr k\<close> show ?thesis by (auto simp: best_def less_Suc_eq)
  next
    case False
    with assms have p: "0 \<le> pos" "nat pos < k" "candidate expr (nat pos)"
      and q: "\<And>q. q < k \<Longrightarrow> candidate expr q \<Longrightarrow>
              priority (expr ! nat pos) \<le> priority (expr ! q) \<and>
              (nat pos < q \<longrightarrow> priority (expr ! nat pos) < priority (expr ! q))"
      by (auto simp: best_def)
    show ?thesis
    proof (cases "priority (expr ! k) \<le> priority (expr ! nat pos)")
      case le: True
      have "best expr (Suc k) (int k)"
        unfolding best_def using True le q by (auto simp: less_Suc_eq) force+
      with True le show ?thesis by simp
    next
      case gt: False
      have "best expr (Suc k) pos"
        unfolding best_def using False p q gt by (auto simp: less_Suc_eq)
      with gt False show ?thesis by simp
    qed
  qed
qed


lemma lookup_loop_step:
  assumes e: "expr = done @ token # rest"
    and i: "i = int (length done) - 1"
    and l: "level = paren_count done"
    and b: "best expr (length done) pos"
  shows "lookup_loop expr (token # rest) pos level i =
         lookup_loop expr rest
           (if candidate expr (length done) \<and>
               (pos = -1 \<or> priority token \<le> priority (expr ! nat pos))
            then int (length done) else pos)
           (paren_count (done @ [token])) (int (length (done @ [token])) - 1)"
proof -
  let ?k = "length done"
  have tk: "expr ! ?k = token" and td: "take ?k expr = done"
    and len: "length expr = ?k + 1 + length rest"
    using e by simp_all
  have i1: "i + 1 = int ?k" using i by simp
  have last: "(int ?k = int (length expr) - 1) = (rest = [])" using len by auto
  have prev: "nat (int ?k - 1) = ?k - 1" by simp
  have cand: "candidate expr ?k \<longleftrightarrow>
      is_operator token \<and> level = 0 \<and> 0 < ?k \<and> rest \<noteq> [] \<and>
      \<not> ((token = CHR ''+'' \<or> token = CHR ''-'') \<and> is_operator (expr ! (?k - 1)))"
    unfolding candidate_def tk td l using len by auto
  show ?thesis
  proof (cases "is_operator token")
    case False
    then have nc: "\<not> candidate expr ?k" by (simp add: cand)
    show ?thesis
      using False nc l i1
      by (auto simp: Let_def paren_count_snoc paren_delta_def)
  next
    case True
    note np = is_operator_no_paren[OF True]
    have lv: "paren_count (done @ [token]) = level" using np l by (simp add: paren_count_snoc)
    show ?thesis
    proof (cases "candidate expr ?k")
      case nc: False
      then have "level \<noteq> 0 \<or> ?k = 0 \<or> rest = [] \<or>
          ((token = CHR ''+'' \<or> token = CHR ''-'') \<and> is_operator (expr ! (?k - 1)))"
        using True by (auto simp: cand)
      then show ?thesis
        using nc True np lv
        by (auto simp: Let_def i1 last prev)
    next
      case c: True
      then have g: "level = 0" "0 < ?k" "rest \<noteq> []"
        "\<not> ((token = CHR ''+'' \<or> token = CHR ''-'') \<and> is_operator (expr ! (?k - 1)))"
        by (auto simp: cand)
      have guards: "\<not> (int ?k = 0 \<or> int ?k = int (length expr) - 1)"
        using g(2,3) last by simp
      show ?thesis
      proof (cases "pos = -1")
        case True
        then show ?thesis
          using c np g(1,4) guards lv \<open>is_operator token\<close>
          by (auto simp: Let_def i1 prev)
      next
        case False
        with b have "candidate expr (nat pos)" by (simp add: best_def)
        then have "is_operator (expr ! nat pos)" by (simp add: candidate_def)
        note pp = is_operator_priority[OF this] is_operator_priority[OF \<open>is_operator token\<close>]
        show ?thesis
          using False c np g(1,4) guards lv \<open>is_operator token\<close> pp
          by (auto simp: Let_def i1 prev)
      qed
    qed
  qed
qed

lemma lookup_loop_best:
  assumes "expr = done @ rest" "i = int (length done) - 1" "level = paren_count done"
    "best expr (length done) pos"
  shows "\<exists>p. lookup_loop expr rest pos level i = Inr p \<and> best expr (length expr) p"
  using assms
proof (induction rest arbitrary: "done" pos level i)
  case Nil
  then show ?case by simp
next
  case (Cons token rest)
  let ?pos' = "if candidate expr (length done) \<and>
               (pos = -1 \<or> priority token \<le> priority (expr ! nat pos))
            then int (length done) else pos"
  have tk: "expr ! length done = token" using Cons.prems(1) by simp
  have b': "best expr (length (done @ [token])) ?pos'"
    using best_step[OF Cons.prems(4)] by (simp add: tk)
  have e': "expr = (done @ [token]) @ rest" using Cons.prems(1) by simp
  from Cons.IH[OF e' refl refl b']
  show ?case
    unfolding lookup_loop_step[OF Cons.prems] .
qed

lemma lookup_top_operator_best:
  "\<exists>p. lookup_top_operator expr = Inr p \<and> best expr (length expr) p"
  unfolding lookup_top_operator_def
  using lookup_loop_best[of expr "[]" expr "-1" 0 "-1"] by (simp add: best_def)

lemma lookup_top_operator_no_candidate:
  "(\<forall>q. \<not> candidate expr q) \<Longrightarrow> lookup_top_operator expr = Inr (-1)"
  using lookup_top_operator_best[of expr] by (auto simp: best_def split: if_splits)

lemma candidate_less_length: "candidate expr q \<Longrightarrow> q < length expr"
  by (simp add: candidate_def)

lemma lookup_top_operator_candidate:
  assumes "candidate expr k"
  shows "\<exists>p. lookup_top_operator expr = Inr (int p) \<and> candidate expr p \<and>
           (\<forall>q. candidate expr q \<longrightarrow>
              priority (expr ! p) \<le> priority (expr ! q) \<and>
              (p < q \<longrightarrow> priority (expr ! p) < priority (expr ! q)))"
proof -
  obtain p where p: "lookup_top_operator expr = Inr p" "best expr (length expr) p"
    using lookup_top_operator_best by blast
  have "p \<noteq> -1"
  proof
    assume "p = -1"
    with p(2) have "\<not> candidate expr k"
      using candidate_less_length[OF assms] by (simp add: best_def)
    with assms show False by simp
  qed
  with p(2) have b: "0 \<le> p" "candidate expr (nat p)"
    "\<And>q. q < length expr \<Longrightarrow> candidate expr q \<Longrightarrow>
        priority (expr ! nat p) \<le> priority (expr ! q) \<and>
        (nat p < q \<longrightarrow> priority (expr ! nat p) < priority (expr ! q))"
    by (auto simp: best_def)
  have "lookup_top_operator expr = Inr (int (nat p))" using p(1) b(1) by simp
  moreover have "\<forall>q. candidate expr q \<longrightarrow>
              priority (expr ! nat p) \<le> priority (expr ! q) \<and>
              (nat p < q \<longrightarrow> priority (expr ! nat p) < priority (expr ! q))"
    using b(3) candidate_less_length by blast
  ultimately show ?thesis using b(2) by blast
qed

lemma lookup_top_operator_unique:
  assumes "candidate expr p"
    and "\<And>q. candidate expr q \<Longrightarrow> priority (expr ! p) \<le> priority (expr ! q)"
    and "\<And>q. candidate expr q \<Longrightarrow> p < q \<Longrightarrow> priority (expr ! p) < priority (expr ! q)"
  shows "lookup_top_operator expr = Inr (int p)"
proof -
  obtain p' where p': "lookup_top_operator expr = Inr (int p')" "candidate expr p'"
    "\<And>q. candidate expr q \<Longrightarrow> priority (expr ! p') \<le> priority (expr ! q)"
    "\<And>q. candidate expr q \<Longrightarrow> p' < q \<Longrightarrow> priority (expr ! p') < priority (expr ! q)"
    using lookup_top_operator_candidate[OF assms(1)] by blast
  have eq: "priority (expr ! p') = priority (expr ! p)"
    using p'(3)[OF assms(1)] assms(2)[OF p'(2)] by simp
  have "\<not> p' < p" using p'(4)[OF assms(1)] eq by auto
  moreover have "\<not> p < p'" using assms(3)[OF p'(2)] eq by auto
  ultimately have "p' = p" by simp
  with p'(1) show ?thesis by simp
qed

subsection \<open>Rendered chains\<close>

lemma plain_simps:
  "plain c \<Longrightarrow> \<not> is_operator c" "plain c \<Longrightarrow> c \<noteq> CHR ''(''" "plain c \<Longrightarrow> c \<noteq> CHR '')''"
  "plain c \<Longrightarrow> paren_delta c = 0"
  by (simp_all add: plain_def paren_delta_def)

lemma is_operator_not_plain: "is_operator c \<Longrightarrow> \<not> plain c"
  by (simp add: plain_def)

lemma is_operator_not_blank: "is_operator c \<Longrightarrow> c \<noteq> CHR '' ''"
  by (auto simp: is_operator_def)

lemma atomD:
  "atom a \<Longrightarrow> a \<noteq> []" "atom a \<Longrightarrow> c \<in> set a \<Longrightarrow> plain c" "atom a \<Longrightarrow> CHR '' '' \<notin> set a"
  by (auto simp: atom_def list_all_iff)

lemma paren_count_plain: "\<forall>c \<in> set s. plain c \<Longrightarrow> paren_count s = 0"
  by (induction s) (simp_all add: plain_simps)

lemma render_nonempty: "left_chain e \<Longrightarrow> render e \<noteq> []"
  by (induction e) (simp_all add: atomD)

lemma render_no_blank: "left_chain e \<Longrightarrow> CHR '' '' \<notin> set (render e)"
  by (induction e) (auto simp: atomD dest: is_operator_not_blank)

lemma render_hd: "left_chain e \<Longrightarrow> \<not> is_operator (hd (render e))"
proof (induction e)
  case (Atom a)
  then have "hd a \<in> set a" by (simp add: atomD)
  with Atom show ?case by (auto dest: atomD(2) simp: plain_simps)
next
  case (Paren e)
  show ?case by (simp add: not_operator_paren)
next
  case (Bin l c r)
  then show ?case by (simp add: render_nonempty)
qed

lemma render_last: "left_chain e \<Longrightarrow> \<not> is_operator (last (render e))"
proof (induction e)
  case (Atom a)
  then have "last a \<in> set a" by (simp add: atomD)
  with Atom show ?case by (auto dest: atomD(2) simp: plain_simps)
next
  case (Paren e)
  show ?case by (simp add: not_operator_paren)
next
  case (Bin l c r)
  then show ?case by (simp add: render_nonempty)
qed

lemma parens_are_balanced_iff:
  "parens_are_balanced s \<longleftrightarrow> nonneg_prefixes s \<and> paren_count s = 0"
proof -
  have "(\<forall>n \<le> length s. 0 \<le> paren_count (take n s)) \<longleftrightarrow> nonneg_prefixes s"
    unfolding nonneg_prefixes_def
  proof
    assume a: "\<forall>n \<le> length s. 0 \<le> paren_count (take n s)"
    show "\<forall>n. 0 \<le> paren_count (take n s)"
    proof
      fix n
      show "0 \<le> paren_count (take n s)"
      proof (cases "n \<le> length s")
        case True
        with a show ?thesis by simp
      next
        case False
        then have "take n s = take (length s) s" by simp
        with a show ?thesis by (metis le_refl)
      qed
    qed
  qed simp
  then show ?thesis
    unfolding parens_are_balanced_def using balanced_loop_iff[of 0 s] by simp
qed

lemma nonneg_prefixes_plain: "\<forall>c \<in> set s. plain c \<Longrightarrow> nonneg_prefixes s"
  unfolding nonneg_prefixes_def
  by (metis paren_count_plain in_set_takeD order_refl)

lemma nonneg_prefixes_append:
  assumes "nonneg_prefixes xs" "paren_count xs = 0" "nonneg_prefixes ys"
  shows "nonneg_prefixes (xs @ ys)"
  unfolding nonneg_prefixes_def
proof
  fix n
  have "paren_count (take n (xs @ ys))
          = paren_count (take n xs) + paren_count (take (n - length xs) ys)"
    by (simp add: paren_count_append)
  moreover have "n \<le> length xs \<Longrightarrow> take (n - length xs) ys = []" by simp
  moreover have "length xs \<le> n \<Longrightarrow> take n xs = xs" by simp
  ultimately show "0 \<le> paren_count (take n (xs @ ys))"
    using assms by (cases "n \<le> length xs") (auto simp: nonneg_prefixes_def)
qed

lemma nonneg_prefixes_Cons_plainish:
  assumes "paren_delta c = 0" "nonneg_prefixes ys"
  shows "nonneg_prefixes (c # ys)"
  unfolding nonneg_prefixes_def
proof
  fix n
  show "0 \<le> paren_count (take n (c # ys))"
    using assms by (cases n) (auto simp: nonneg_prefixes_def)
qed

lemma nonneg_prefixes_wrap:
  assumes "nonneg_prefixes xs" "paren_count xs = 0"
  shows "nonneg_prefixes (''('' @ xs @ '')'')"
  unfolding nonneg_prefixes_def
proof
  fix n
  show "0 \<le> paren_count (take n (''('' @ xs @ '')''))"
  proof (cases n)
    case 0
    then show ?thesis by simp
  next
    case (Suc m)
    have "paren_count (take m (xs @ '')''))
            = paren_count (take m xs) + paren_count (take (m - length xs) '')'')"
      by (simp add: paren_count_append)
    moreover have "- 1 \<le> paren_count (take (m - length xs) '')'')"
      by (cases "m - length xs") (simp_all add: paren_delta_def)
    moreover have "0 \<le> paren_count (take m xs)" using assms(1) by (simp add: nonneg_prefixes_def)
    ultimately show ?thesis using Suc by (simp add: paren_delta_def)
  qed
qed

lemma render_balanced:
  "left_chain e \<Longrightarrow> nonneg_prefixes (render e) \<and> paren_count (render e) = 0"
proof (induction e)
  case (Atom a)
  then show ?case by (simp add: atomD nonneg_prefixes_plain paren_count_plain)
next
  case (Paren e)
  then show ?case
    using nonneg_prefixes_wrap[of "render e"]
    by (simp add: paren_count_append paren_delta_def)
next
  case (Bin l c r)
  then have c: "paren_delta c = 0" by (simp add: is_operator_no_paren)
  from Bin have l: "nonneg_prefixes (render l)" "paren_count (render l) = 0"
    and r: "nonneg_prefixes (render r)" "paren_count (render r) = 0" by simp_all
  have "nonneg_prefixes (render l @ c # render r)"
    by (intro nonneg_prefixes_append l nonneg_prefixes_Cons_plainish c r)
  then show ?case using l r c by (simp add: paren_count_append)
qed

lemma render_parens_are_balanced: "left_chain e \<Longrightarrow> parens_are_balanced (render e)"
  by (simp add: parens_are_balanced_iff render_balanced)

subsection \<open>The top-level operators of a rendered chain\<close>

lemma top_op_append_left: "q < length xs \<Longrightarrow> top_op (xs @ ys) q = top_op xs q"
  by (simp add: top_op_def nth_append)

lemma top_op_append_right:
  "paren_count xs = 0 \<Longrightarrow> top_op (xs @ ys) (length xs + j) = top_op ys j"
  by (simp add: top_op_def nth_append paren_count_append)

lemma top_op_Cons_Suc:
  "top_op (c # ys) (Suc j) =
     (j < length ys \<and> is_operator (ys ! j) \<and> paren_delta c + paren_count (take j ys) = 0)"
  by (simp add: top_op_def)

lemma top_op_wrap:
  assumes "nonneg_prefixes xs"
  shows "\<not> top_op (''('' @ xs @ '')'') q"
proof (cases q)
  case 0
  then show ?thesis by (simp add: top_op_def not_operator_paren)
next
  case (Suc j)
  show ?thesis
  proof (cases "j < length xs")
    case True
    have "0 \<le> paren_count (take j xs)" using assms by (simp add: nonneg_prefixes_def)
    then show ?thesis using Suc True by (simp add: top_op_def paren_delta_def)
  next
    case False
    then show ?thesis
      using Suc by (auto simp: top_op_def nth_append not_operator_paren)
  qed
qed

lemma top_op_plain: "\<forall>c \<in> set s. plain c \<Longrightarrow> \<not> top_op s q"
  by (auto simp: top_op_def plain_simps)

lemma top_op_Bin_cases:
  assumes "paren_count L = 0" "paren_delta c = 0" "top_op (L @ c # R) q"
  shows "(q < length L \<and> top_op L q) \<or> q = length L \<or>
         (length L < q \<and> top_op R (q - length L - 1))"
proof (cases "q < length L")
  case True
  with assms(3) show ?thesis by (simp add: top_op_append_left)
next
  case False
  then obtain j where j: "q = length L + j" by (metis le_add_diff_inverse not_less)
  with assms have t: "top_op (c # R) j" by (simp add: top_op_append_right)
  show ?thesis
  proof (cases j)
    case 0
    with j show ?thesis by simp
  next
    case (Suc m)
    with t assms(2) have "top_op R m" by (simp add: top_op_Cons_Suc top_op_def)
    with j Suc show ?thesis by simp
  qed
qed

lemma render_top_op_priority:
  "left_chain e \<Longrightarrow> top_op (render e) q \<Longrightarrow> top_priority e \<le> priority (render e ! q)"
proof (induction e arbitrary: q)
  case (Atom a)
  then show ?case using top_op_plain[of a q] by (auto dest: atomD(2))
next
  case (Paren e)
  then show ?case using top_op_wrap[of "render e" q] by (simp add: render_balanced)
next
  case (Bin l c r)
  let ?L = "render l" and ?R = "render r"
  from Bin.prems(1) have lc: "left_chain l" "left_chain r" "is_operator c"
    and pr: "priority c \<le> top_priority l" "priority c < top_priority r" by simp_all
  have pl: "paren_count ?L = 0" using lc(1) by (simp add: render_balanced)
  have pc: "paren_delta c = 0" using lc(3) by (simp add: is_operator_no_paren)
  from Bin.prems(2) have "top_op (?L @ c # ?R) q" by simp
  from top_op_Bin_cases[OF pl pc this]
  show ?case
  proof (elim disjE conjE)
    assume a: "q < length ?L" "top_op ?L q"
    from Bin.IH(1)[OF lc(1) a(2)] pr(1) a(1) show ?thesis by (simp add: nth_append)
  next
    assume "q = length ?L"
    then show ?thesis by simp
  next
    assume a: "length ?L < q" "top_op ?R (q - length ?L - 1)"
    have "(?L @ c # ?R) ! q = ?R ! (q - length ?L - 1)"
      using a(1) by (simp add: nth_append nth_Cons')
    with Bin.IH(2)[OF lc(2) a(2)] pr(2) show ?thesis by simp
  qed
qed

lemma candidate_top_op: "candidate s q \<Longrightarrow> top_op s q"
  by (simp add: candidate_def top_op_def)

lemma lookup_top_operator_Bin:
  assumes "left_chain (Bin l c r)"
  shows "lookup_top_operator (render (Bin l c r)) = Inr (int (length (render l)))"
proof (rule lookup_top_operator_unique)
  let ?L = "render l" and ?R = "render r"
  let ?S = "render (Bin l c r)"
  from assms have lc: "left_chain l" "left_chain r" "is_operator c"
    and pr: "priority c \<le> top_priority l" "priority c < top_priority r" by simp_all
  have ne: "?L \<noteq> []" "?R \<noteq> []" using lc by (simp_all add: render_nonempty)
  have pl: "paren_count ?L = 0" using lc(1) by (simp add: render_balanced)
  have pc: "paren_delta c = 0" using lc(3) by (simp add: is_operator_no_paren)
  have at: "?S ! length ?L = c" by simp
  have prev: "?S ! (length ?L - 1) = last ?L"
    using ne(1) by (simp add: nth_append last_conv_nth)
  show "candidate ?S (length ?L)"
    unfolding candidate_def at prev
    using ne lc(3) pl render_last[OF lc(1)] by simp
  show "priority (?S ! length ?L) \<le> priority (?S ! q)" if "candidate ?S q" for q
    using render_top_op_priority[OF assms candidate_top_op[OF that]] by simp
  show "priority (?S ! length ?L) < priority (?S ! q)"
    if "candidate ?S q" "length ?L < q" for q
  proof -
    from candidate_top_op[OF that(1)] have "top_op (?L @ c # ?R) q" by simp
    from top_op_Bin_cases[OF pl pc this] that(2)
    have t: "top_op ?R (q - length ?L - 1)" by auto
    have "?S ! q = ?R ! (q - length ?L - 1)"
      using that(2) by (simp add: nth_append nth_Cons')
    with render_top_op_priority[OF lc(2) t] pr(2) show ?thesis by simp
  qed
qed

lemma lookup_top_operator_Atom:
  assumes "atom a"
  shows "lookup_top_operator a = Inr (-1)"
proof (rule lookup_top_operator_no_candidate)
  show "\<forall>q. \<not> candidate a q"
    using top_op_plain[of a] assms by (auto dest: candidate_top_op atomD(2))
qed

subsection \<open>Redundant parentheses and normalisation of a rendered chain\<close>

lemma remove_extra_parens_id:
  "\<not> (startswith s ''('' \<and> endswith s '')'' \<and> parens_are_balanced (slice_to_last 1 s)) \<Longrightarrow>
   remove_extra_parens s = s"
  by (subst remove_extra_parens.simps) auto

lemma remove_extra_parens_wrap:
  "parens_are_balanced s \<Longrightarrow> remove_extra_parens (''('' @ s @ '')'') = remove_extra_parens s"
  by (subst remove_extra_parens.simps)
    (simp add: startswith_def endswith_def slice_to_last_def)

lemma remove_extra_parens_Atom: "atom a \<Longrightarrow> remove_extra_parens a = a"
proof (rule remove_extra_parens_id)
  assume "atom a"
  then have "a \<noteq> []" "hd a \<noteq> CHR ''(''"
    using atomD(2)[of a "hd a"] by (auto simp: atomD(1) plain_simps)
  then have "\<not> startswith a ''(''" by (cases a) (simp_all add: startswith_def)
  then show "\<not> (startswith a ''('' \<and> endswith a '')'' \<and> parens_are_balanced (slice_to_last 1 a))"
    by simp
qed

lemma unbalanced_interior:
  assumes "paren_count L = 0" "L = CHR ''('' # L'" "R \<noteq> []"
  shows "\<not> parens_are_balanced (slice_to_last 1 (L @ c # R))"
proof -
  have s: "slice_to_last 1 (L @ c # R) = L' @ c # butlast R"
    using assms(2,3) by (simp add: slice_to_last_def butlast_append)
  have "paren_count L' = -1" using assms(1,2) by (simp add: paren_delta_def)
  then have "paren_count (take (length L') (L' @ c # butlast R)) < 0" by simp
  then have "\<not> nonneg_prefixes (L' @ c # butlast R)"
    unfolding nonneg_prefixes_def by (metis not_le)
  then have "\<not> parens_are_balanced (L' @ c # butlast R)"
    by (simp add: parens_are_balanced_iff)
  then show ?thesis unfolding s .
qed

lemma remove_extra_parens_Bin:
  assumes "left_chain (Bin l c r)"
  shows "remove_extra_parens (render (Bin l c r)) = render (Bin l c r)"
proof (rule remove_extra_parens_id, rule notI, elim conjE)
  let ?L = "render l" and ?R = "render r"
  from assms have lc: "left_chain l" "left_chain r" by simp_all
  have ne: "?L \<noteq> []" "?R \<noteq> []" using lc by (simp_all add: render_nonempty)
  have pl: "paren_count ?L = 0" using lc(1) by (simp add: render_balanced)
  assume "startswith (render (Bin l c r)) ''(''"
    and b: "parens_are_balanced (slice_to_last 1 (render (Bin l c r)))"
  then have "hd ?L = CHR ''(''" using ne(1) by (cases ?L) (simp_all add: startswith_def)
  then obtain L' where "?L = CHR ''('' # L'" using ne(1) by (cases ?L) simp_all
  from unbalanced_interior[OF pl this ne(2), of c] b show False by simp
qed

lemma exp_check_id:
  assumes "s \<noteq> []" "CHR '' '' \<notin> set s" "parens_are_balanced s" "remove_extra_parens s = s"
    "\<not> is_operator (hd s)" "\<not> is_operator (last s)"
  shows "exp_check s = Inr s"
proof -
  have f: "filter (\<lambda>c. c \<noteq> CHR '' '') s = s" using assms(2) by (auto simp: filter_id_conv)
  have "hd s \<noteq> CHR ''-''" "hd s \<noteq> CHR ''+''"
    using assms(5) by (auto simp: is_operator_def)
  then show ?thesis
    using assms by (simp add: exp_check_def f Let_def)
qed

lemma parens_are_balanced_wrap:
  "parens_are_balanced s \<Longrightarrow> parens_are_balanced (''('' @ s @ '')'')"
  using balanced_wrap[of "[]" s] by (simp add: no_parens_def)

lemma exp_check_wrap:
  assumes "parens_are_balanced s" "CHR '' '' \<notin> set s"
  shows "exp_check (''('' @ s @ '')'') = exp_check s"
proof -
  have f: "filter (\<lambda>c. c \<noteq> CHR '' '') s = s" using assms(2) by (auto simp: filter_id_conv)
  show ?thesis
    using assms(1) parens_are_balanced_wrap[OF assms(1)] remove_extra_parens_wrap[OF assms(1)]
    by (simp add: exp_check_def f)
qed

lemma MathExp_init_cong:
  "exp_check s = exp_check s' \<Longrightarrow> MathExp_init s = MathExp_init s'"
  by (subst MathExp_init.simps, subst (2) MathExp_init.simps) simp

subsection \<open>No function is detected in a rendered chain\<close>

lemma startswith_plain_call:
  assumes "startswith s (F @ ''('')" "\<forall>c \<in> set F. plain c"
  shows "takeWhile plain s = F \<and> dropWhile plain s \<noteq> [] \<and> hd (dropWhile plain s) = CHR ''(''"
proof -
  from assms(1) have "s = (F @ ''('') @ drop (length F + 1) s"
    unfolding startswith_def by (metis append_take_drop_id length_append_singleton Suc_eq_plus1)
  then obtain t where s: "s = F @ CHR ''('' # t" by (metis append.assoc append_Cons append_Nil)
  have np: "\<not> plain CHR ''(''" by (simp add: plain_def)
  show ?thesis using assms(2) np by (simp add: s takeWhile_append2 dropWhile_append2)
qed

lemma render_first_special:
  "left_chain e \<Longrightarrow>
   takeWhile plain (render e) = [] \<or> dropWhile plain (render e) = [] \<or>
   is_operator (hd (dropWhile plain (render e)))"
proof (induction e)
  case (Atom a)
  then have "dropWhile plain a = []" by (auto dest: atomD(2))
  then show ?case by simp
next
  case (Paren e)
  show ?case by (simp add: plain_def)
next
  case (Bin l c r)
  let ?L = "render l"
  from Bin.prems have lc: "left_chain l" "is_operator c" by simp_all
  have ne: "?L \<noteq> []" using lc(1) by (simp add: render_nonempty)
  from Bin.IH(1)[OF lc(1)] show ?case
  proof (elim disjE)
    assume "takeWhile plain ?L = []"
    then have "\<not> plain (hd ?L)" using ne by (cases ?L) (auto split: if_splits)
    then have "takeWhile plain (?L @ c # render r) = []" using ne by (cases ?L) simp_all
    then show ?thesis by simp
  next
    assume "dropWhile plain ?L = []"
    then have "\<forall>x \<in> set ?L. plain x" by simp
    then have "dropWhile plain (?L @ c # render r) = c # render r"
      using lc(2) by (simp add: dropWhile_append2 is_operator_not_plain)
    then show ?thesis using lc(2) by simp
  next
    assume a: "is_operator (hd (dropWhile plain ?L))"
    show ?thesis
    proof (cases "dropWhile plain ?L = []")
      case True
      then have "\<forall>x \<in> set ?L. plain x" by simp
      then have "dropWhile plain (?L @ c # render r) = c # render r"
        using lc(2) by (simp add: dropWhile_append2 is_operator_not_plain)
      then show ?thesis using lc(2) by simp
    next
      case False
      then obtain x where "x \<in> set ?L" "\<not> plain x" by auto
      then have "dropWhile plain (?L @ c # render r) = dropWhile plain ?L @ c # render r"
        by (simp add: dropWhile_append1)
      then show ?thesis using a False by simp
    qed
  qed
qed

lemma FUNCTION_LIST_plain:
  "F \<in> set (map fst FUNCTION_LIST) \<Longrightarrow> F \<noteq> [] \<and> (\<forall>c \<in> set F. plain c)"
  by (auto simp: FUNCTION_LIST_def plain_def is_operator_def)

lemma get_function_render:
  assumes "left_chain e"
  shows "get_function (render e) = None"
proof (cases "get_function (render e)")
  case None
  then show ?thesis .
next
  case (Some F)
  from get_function_Some[OF Some]
  have F: "F \<in> set (map fst FUNCTION_LIST)" and st: "startswith (render e) (F @ ''('')"
    by simp_all
  from FUNCTION_LIST_plain[OF F] have pl: "F \<noteq> []" "\<forall>c \<in> set F. plain c" by simp_all
  from startswith_plain_call[OF st pl(2)]
  have "takeWhile plain (render e) = F" "dropWhile plain (render e) \<noteq> []"
    "hd (dropWhile plain (render e)) = CHR ''(''" by simp_all
  with render_first_special[OF assms] pl(1) show ?thesis
    by (auto simp: not_operator_paren)
qed

subsection \<open>The constructor on a rendered chain\<close>

lemma exp_check_render_Atom: "atom a \<Longrightarrow> exp_check a = Inr a"
  using render_hd[of "Atom a"] render_last[of "Atom a"] render_no_blank[of "Atom a"]
    render_parens_are_balanced[of "Atom a"]
  by (intro exp_check_id) (simp_all add: atomD remove_extra_parens_Atom)

lemma exp_check_render_Bin:
  assumes "left_chain (Bin l c r)"
  shows "exp_check (render (Bin l c r)) = Inr (render (Bin l c r))"
  using render_hd[OF assms] render_last[OF assms] render_no_blank[OF assms]
    render_parens_are_balanced[OF assms] render_nonempty[OF assms]
    remove_extra_parens_Bin[OF assms]
  by (intro exp_check_id)

lemma MathExp_init_render:
  "left_chain e \<Longrightarrow> MathExp_init (render e) = Inr (tree_of e)"
proof (induction e)
  case (Atom a)
  then have a: "atom a" by simp
  show ?case
    using exp_check_render_Atom[OF a] get_function_render[of "Atom a"] a
      lookup_top_operator_Atom[OF a]
    by (subst MathExp_init.simps) (simp add: literal_node_def)
next
  case (Paren e)
  then have lc: "left_chain e" by simp
  have "exp_check (render (Paren e)) = exp_check (render e)"
    using exp_check_wrap[OF render_parens_are_balanced[OF lc] render_no_blank[OF lc]] by simp
  from MathExp_init_cong[OF this] Paren.IH[OF lc] show ?case by simp
next
  case (Bin l c r)
  from Bin.prems have lc: "left_chain l" "left_chain r" by simp_all
  let ?S = "render (Bin l c r)"
  have t: "take (length (render l)) ?S = render l"
    and d: "drop (Suc (length (render l))) ?S = render r"
    and n: "?S ! length (render l) = c"
    by simp_all
  show ?case
    using exp_check_render_Bin[OF Bin.prems] get_function_render[OF Bin.prems]
      lookup_top_operator_Bin[OF Bin.prems] Bin.IH(1)[OF lc(1)] Bin.IH(2)[OF lc(2)]
    by (subst MathExp_init.simps) (simp add: t d n operator_node_def del: render.simps)
qed

lemma evaluate_tree_of:
  "evaluate (tree_of e) (Some tab) = std_eval e tab"
  by (induction e) (simp_all add: node_defs split: sum.splits)

lemma evaluate_tree_of_None:
  "evaluate (tree_of e) None = std_eval e Map.empty"
  by (induction e) (simp_all add: node_defs evaluate_tree_of[unfolded node_defs] split: sum.splits)

subsection \<open>The errors of construction\<close>

text \<open>
  Construction raises nothing but \<^verbatim>\<open>MalformedExpression\<close> and \<^verbatim>\<open>IndexError\<close>: the scan
  for the top-level operator never raises, and the parsing error is raised by evaluation
  only.
\<close>

lemma exp_check_errors:
  "exp_check s = Inl e \<Longrightarrow> e = MalformedExpression \<or> e = IndexError"
  by (auto simp: exp_check_def Let_def split: if_splits)

lemma lookup_top_operator_no_error: "lookup_top_operator s \<noteq> Inl e"
  using lookup_top_operator_best[of s] by auto

lemma MathExp_init_errors:
  "MathExp_init s = Inl e \<Longrightarrow> e = MalformedExpression \<or> e = IndexError"
proof (induction s arbitrary: e rule: MathExp_init.induct)
  case (1 exp0)
  show ?case
  proof (cases "exp_check exp0")
    case (Inl e')
    with "1.prems" have "e = e'" by (subst (asm) MathExp_init.simps) simp
    with exp_check_errors[OF Inl] show ?thesis by simp
  next
    case (Inr expr)
    show ?thesis
    proof (cases "get_function expr")
      case (Some f)
      then have "MathExp_init (slice_to_last (length f + 1) expr) = Inl e"
        using "1.prems" Inr
        by (subst (asm) MathExp_init.simps) (simp split: sum.splits)
      from "1.IH"(3)[OF Inr Some refl this] show ?thesis .
    next
      case None
      obtain p where p: "lookup_top_operator expr = Inr p"
        using lookup_top_operator_best[of expr] by blast
      show ?thesis
      proof (cases "0 \<le> p")
        case False
        then show ?thesis using "1.prems" Inr None p
          by (subst (asm) MathExp_init.simps) simp
      next
        case True
        show ?thesis
        proof (cases "MathExp_init (take (nat p) expr)")
          case l: (Inl e')
          then have "e = e'" using "1.prems" Inr None p True
            by (subst (asm) MathExp_init.simps) simp
          with "1.IH"(1)[OF Inr None p True refl refl] l show ?thesis by simp
        next
          case l: (Inr lt)
          then have "MathExp_init (drop (nat p + 1) expr) = Inl e"
            using "1.prems" Inr None p True
            by (subst (asm) MathExp_init.simps) (simp split: sum.splits)
          from "1.IH"(2)[OF Inr None p True refl refl l this] show ?thesis .
        qed
      qed
    qed
  qed
qed

subsection \<open>The whitespace of numeric literals\<close>

text \<open>
  The separators 28 to 31 are not stripped, so a token that ends in one is a name; the
  no-break space (160) and the next-line character (133) are stripped like a blank.
\<close>

lemma is_number_separator_not_stripped:
  "\<not> is_number [CHR ''1'', CHR 0x1C] \<and> \<not> is_number [CHR 0x1F, CHR ''1'']"
  by (simp add: float_eval)

lemma float_py_latin1_whitespace:
  "float_py [CHR ''1'', CHR 0xA0] = Inr 1 \<and> float_py [CHR 0x85, CHR ''1'', CHR 0x0B] = Inr 1 \<and>
   float_py [CHR ''1'', CHR 0xA0, CHR ''1''] = Inl ValueError"
  by (simp add: float_eval)

subsection \<open>Evaluation with a binding is the value in that binding\<close>

lemma evaluate_value_of: "evaluate self (Some t) = value_of t self"
proof (induction self)
  case (MathExp token ty left right vt)
  show ?case using MathExp by (auto split: option.splits sum.splits)
qed

lemma evaluate_None: "evaluate self None = value_of (get_variables_table self) self"
  by (cases self) (auto simp: evaluate_value_of split: option.splits sum.splits)

lemma value_of_set_all_tables: "value_of t (set_all_tables vt self) = value_of t self"
proof (induction self)
  case (MathExp token ty left right vt0)
  show ?case using MathExp by (auto split: option.splits sum.splits)
qed

lemma get_variables_table_set_all_tables:
  "get_variables_table (set_all_tables vt self) = vt"
  by (cases self) simp


section \<open>Properties of the specification\<close>

subsection \<open>Operator chains\<close>

text \<open>
  C1, as the code has it: for every operator chain read by precedence with all operators
  associating to the left, \<^verbatim>\<open>^\<close> included, constructing from its string gives the object
  of that reading, and evaluating the object, with a transient binding or with its own
  empty one, gives the value of the reading. \<^verbatim>\<open>2+3*4\<close> is constructed as \<^verbatim>\<open>2+(3*4)\<close>
  and evaluates to 14; \<^verbatim>\<open>(2+3)*4\<close> is constructed as the product of \<^verbatim>\<open>2+3\<close> and \<^verbatim>\<open>4\<close>
  and evaluates to 20.
\<close>

theorem chain_construct_evaluate:
  "(left_chain e \<longrightarrow>
      MathExp_init (render e) = Inr (tree_of e) \<and>
      evaluate (tree_of e) (Some tab) = std_eval e tab \<and>
      evaluate (tree_of e) None = std_eval e Map.empty) \<and>
   MathExp_init ''2+3*4''
     = Inr (operator_node CHR ''+'' (literal_node ''2'')
             (operator_node CHR ''*'' (literal_node ''3'') (literal_node ''4''))) \<and>
   evaluate (operator_node CHR ''+'' (literal_node ''2'')
              (operator_node CHR ''*'' (literal_node ''3'') (literal_node ''4''))) None
     = Inr 14 \<and>
   MathExp_init ''(2+3)*4''
     = Inr (operator_node CHR ''*''
             (operator_node CHR ''+'' (literal_node ''2'') (literal_node ''3''))
             (literal_node ''4'')) \<and>
   evaluate (operator_node CHR ''*''
              (operator_node CHR ''+'' (literal_node ''2'') (literal_node ''3''))
              (literal_node ''4'')) None
     = Inr 20"
proof (intro conjI impI)
  assume "left_chain e"
  then show "MathExp_init (render e) = Inr (tree_of e)" by (rule MathExp_init_render)
next
  show "evaluate (tree_of e) (Some tab) = std_eval e tab" by (rule evaluate_tree_of)
next
  show "evaluate (tree_of e) None = std_eval e Map.empty" by (rule evaluate_tree_of_None)
qed (simp_all add: init_eval node_defs float_eval evaluate_operator_def)

theorem chain_construct_evaluate_witness:
  "left_chain (Bin (Paren (Bin (Atom ''2'') CHR ''+'' (Atom ''3''))) CHR ''*'' (Atom ''4'')) \<and>
   render (Bin (Paren (Bin (Atom ''2'') CHR ''+'' (Atom ''3''))) CHR ''*'' (Atom ''4''))
     = ''(2+3)*4'' \<and>
   MathExp_init ''(2+3)*4''
     = Inr (tree_of (Bin (Paren (Bin (Atom ''2'') CHR ''+'' (Atom ''3''))) CHR ''*'' (Atom ''4''))) \<and>
   evaluate (tree_of (Bin (Paren (Bin (Atom ''2'') CHR ''+'' (Atom ''3''))) CHR ''*'' (Atom ''4'')))
     None = Inr 20"
proof -
  let ?e = "Bin (Paren (Bin (Atom ''2'') CHR ''+'' (Atom ''3''))) CHR ''*'' (Atom ''4'')"
  have h: "left_chain ?e"
    by (simp add: atom_def plain_def is_operator_def priority_def OPERATOR_PRIORITY_def)
  have v: "std_eval ?e Map.empty = Inr 20"
    by (simp add: float_eval evaluate_operator_def)
  from h v chain_construct_evaluate[of ?e Map.empty] show ?thesis by simp
qed

text \<open>
  The claim as stated fails on \<^verbatim>\<open>2^3^2\<close>: by standard precedence, where \<^verbatim>\<open>^\<close> associates
  to the right, the string reads \<^verbatim>\<open>2^(3^2)\<close> and has the value 512; the constructor
  builds \<^verbatim>\<open>(2^3)^2\<close>, which evaluates to 64.
\<close>

theorem chain_standard_counterexample:
  "standard_chain (Bin (Atom ''2'') CHR ''^'' (Bin (Atom ''3'') CHR ''^'' (Atom ''2''))) \<and>
   render (Bin (Atom ''2'') CHR ''^'' (Bin (Atom ''3'') CHR ''^'' (Atom ''2''))) = ''2^3^2'' \<and>
   std_eval (Bin (Atom ''2'') CHR ''^'' (Bin (Atom ''3'') CHR ''^'' (Atom ''2''))) Map.empty
     = Inr 512 \<and>
   MathExp_init ''2^3^2''
     = Inr (operator_node CHR ''^''
             (operator_node CHR ''^'' (literal_node ''2'') (literal_node ''3''))
             (literal_node ''2'')) \<and>
   evaluate (operator_node CHR ''^''
              (operator_node CHR ''^'' (literal_node ''2'') (literal_node ''3''))
              (literal_node ''2'')) None
     = Inr 64"
  by (simp add: init_eval node_defs float_eval evaluate_operator_def py_pow_def
      atom_def plain_def priority_def)

subsection \<open>Division by zero\<close>

text \<open>
  C2, as the code has it: a division node whose left operand evaluates to a number and
  whose right operand evaluates to zero raises \<^verbatim>\<open>ZeroDivisionError\<close>; Python's \<^verbatim>\<open>/\<close> on
  floats returns neither an infinity nor a NaN there.
\<close>

theorem division_by_zero_raises:
  "evaluate l (Some tab) = Inr a \<Longrightarrow> evaluate r (Some tab) = Inr 0 \<Longrightarrow>
   evaluate (MathExp ''/'' MATHEXP_OPERATOR (Some l) (Some r) vt) (Some tab)
     = Inl ZeroDivisionError"
  by (simp add: MATHEXP_defs evaluate_operator_def py_truediv_def)

theorem division_by_zero_raises_witness:
  "evaluate (literal_node ''1'') (Some Map.empty) = Inr 1 \<and>
   evaluate (literal_node ''0'') (Some Map.empty) = Inr 0 \<and>
   evaluate (MathExp ''/'' MATHEXP_OPERATOR (Some (literal_node ''1''))
               (Some (literal_node ''0'')) Map.empty) (Some Map.empty)
     = Inl ZeroDivisionError"
proof -
  have h1: "evaluate (literal_node ''1'') (Some Map.empty) = Inr 1"
    by (simp add: node_defs float_eval)
  have h2: "evaluate (literal_node ''0'') (Some Map.empty) = Inr 0"
    by (simp add: node_defs float_eval)
  from h1 h2 division_by_zero_raises[OF h1 h2, of Map.empty] show ?thesis by simp
qed

text \<open>
  The claim as stated fails on \<^verbatim>\<open>1/0\<close>: the tree is constructed, its right operand
  evaluates to zero, and evaluation raises.
\<close>

theorem division_by_zero_counterexample:
  "MathExp_init ''1/0''
     = Inr (operator_node CHR ''/'' (literal_node ''1'') (literal_node ''0'')) \<and>
   evaluate (literal_node ''0'') None = Inr 0 \<and>
   evaluate (operator_node CHR ''/'' (literal_node ''1'') (literal_node ''0'')) None
     = Inl ZeroDivisionError"
  by (simp add: init_eval node_defs float_eval evaluate_operator_def py_truediv_def)

subsection \<open>Construction on the empty string\<close>

text \<open>
  C3 at the failing input: constructing from the empty string raises \<^verbatim>\<open>IndexError\<close>
  from \<^verbatim>\<open>exp[0]\<close>, which is neither \<^verbatim>\<open>MalformedExpression\<close> nor the parsing error.
  \<^verbatim>\<open>exp_check\<close> raises \<^verbatim>\<open>MalformedExpression\<close> for every other shape it rejects and has
  no test for an empty string.
\<close>

theorem construction_empty_string_IndexError:
  "MathExp_init '''' = Inl IndexError"
  by (simp add: init_eval)

theorem construction_empty_string_IndexError_witness:
  "MathExp_init '''' \<noteq> Inl MalformedExpression \<and>
   MathExp_init '''' \<noteq> Inl ExpressionParsingError"
  using construction_empty_string_IndexError by simp

lemma construction_empty_parens_IndexError:
  "MathExp_init ''()'' = Inl IndexError"
  by (simp add: init_eval)

subsection \<open>The split position\<close>

text \<open>
  C4: when the string has a candidate position, \<^verbatim>\<open>lookup_top_operator\<close> returns a
  candidate \<open>p\<close> of least priority, and every candidate whose priority is less than or
  equal to that of \<open>p\<close> is at \<open>p\<close> or left of it: among candidates of equal priority
  the rightmost is chosen, so a chain of them splits to the left. \<^verbatim>\<open>8-3-2\<close> is
  constructed as \<^verbatim>\<open>(8-3)-2\<close> and evaluates to 3.
\<close>

theorem top_operator_rightmost:
  "(candidate expr k \<longrightarrow>
      (\<exists>p. lookup_top_operator expr = Inr (int p) \<and> candidate expr p \<and>
           (\<forall>q. candidate expr q \<longrightarrow>
              priority (expr ! p) \<le> priority (expr ! q) \<and>
              (priority (expr ! q) \<le> priority (expr ! p) \<longrightarrow> q \<le> p)))) \<and>
   MathExp_init ''8-3-2''
     = Inr (operator_node CHR ''-''
             (operator_node CHR ''-'' (literal_node ''8'') (literal_node ''3''))
             (literal_node ''2'')) \<and>
   evaluate (operator_node CHR ''-''
              (operator_node CHR ''-'' (literal_node ''8'') (literal_node ''3''))
              (literal_node ''2'')) None = Inr 3"
proof (intro conjI impI)
  assume "candidate expr k"
  from lookup_top_operator_candidate[OF this]
  obtain p where p: "lookup_top_operator expr = Inr (int p)" "candidate expr p"
    "\<And>q. candidate expr q \<Longrightarrow> priority (expr ! p) \<le> priority (expr ! q) \<and>
              (p < q \<longrightarrow> priority (expr ! p) < priority (expr ! q))"
    by blast
  have "\<forall>q. candidate expr q \<longrightarrow>
              priority (expr ! p) \<le> priority (expr ! q) \<and>
              (priority (expr ! q) \<le> priority (expr ! p) \<longrightarrow> q \<le> p)"
    using p(3) by (metis not_le)
  with p(1,2)
  show "\<exists>p. lookup_top_operator expr = Inr (int p) \<and> candidate expr p \<and>
           (\<forall>q. candidate expr q \<longrightarrow>
              priority (expr ! p) \<le> priority (expr ! q) \<and>
              (priority (expr ! q) \<le> priority (expr ! p) \<longrightarrow> q \<le> p))"
    by blast
qed (simp_all add: init_eval node_defs float_eval evaluate_operator_def)

theorem top_operator_rightmost_witness:
  "candidate ''8-3-2'' 1 \<and> candidate ''8-3-2'' 3 \<and>
   priority (''8-3-2'' ! 1) = priority (''8-3-2'' ! 3) \<and>
   lookup_top_operator ''8-3-2'' = Inr 3"
proof -
  have h: "candidate ''8-3-2'' 1"
    by (simp add: candidate_def is_operator_def paren_delta_def)
  have l: "lookup_top_operator ''8-3-2'' = Inr 3"
    by (simp add: init_eval)
  from top_operator_rightmost[of "''8-3-2''" 1] h
  obtain p where "lookup_top_operator ''8-3-2'' = Inr (int p)" "candidate ''8-3-2'' p"
    by blast
  with l have "candidate ''8-3-2'' 3" by (cases "p = 3") auto
  with h l show ?thesis by (simp add: priority_def OPERATOR_PRIORITY_def)
qed

subsection \<open>Unbalanced parentheses\<close>

text \<open>
  C5: when the running count of \<^verbatim>\<open>(\<close> minus \<^verbatim>\<open>)\<close> goes negative at some point of the
  input, or is nonzero at its end, construction raises \<^verbatim>\<open>MalformedExpression\<close>; both
  \<^verbatim>\<open>(1+2\<close> and \<^verbatim>\<open>1+2)\<close> are such inputs.
\<close>

theorem unbalanced_parens_fail:
  "(unbalanced s \<longrightarrow> MathExp_init s = Inl MalformedExpression) \<and>
   unbalanced ''(1+2'' \<and> MathExp_init ''(1+2'' = Inl MalformedExpression \<and>
   unbalanced ''1+2)'' \<and> MathExp_init ''1+2)'' = Inl MalformedExpression"
proof (intro conjI impI)
  assume "unbalanced s"
  then have "\<not> parens_are_balanced s" by (simp add: parens_are_balanced_iff_not_unbalanced)
  then show "MathExp_init s = Inl MalformedExpression" by (rule MathExp_init_unbalanced)
qed (simp_all add: unbalanced_def paren_delta_def init_eval)

text \<open>A string whose running count goes negative and is zero at the end.\<close>

theorem unbalanced_parens_fail_witness:
  "unbalanced '')('' \<and> MathExp_init '')('' = Inl MalformedExpression"
proof -
  have "paren_count (take 1 '')('') < 0" by (simp add: paren_delta_def)
  then have h: "unbalanced '')(''" unfolding unbalanced_def by (intro disjI1 bexI[of _ 1]) simp_all
  from h unbalanced_parens_fail[of "'')(''"] show ?thesis by simp
qed

subsection \<open>Detected functions\<close>

text \<open>
  C6: \<^verbatim>\<open>get_function\<close> returns a name \<open>F\<close> only when \<open>F\<close> is a key of \<^verbatim>\<open>FUNCTION_LIST\<close>,
  the string starts with \<open>F(\<close>, ends with \<open>)\<close>, and the interior between them is
  balanced. No function is detected in \<^verbatim>\<open>sin(0)+1\<close> or in \<^verbatim>\<open>sin(0)+cos(0)\<close>;
  \<^verbatim>\<open>sin(0)+1\<close> is constructed as the sum of \<^verbatim>\<open>sin(0)\<close> and \<^verbatim>\<open>1\<close> and evaluates to 1.
\<close>

theorem function_detection:
  "(get_function expr = Some F \<longrightarrow>
      F \<in> set (map fst FUNCTION_LIST) \<and> startswith expr (F @ ''('') \<and> endswith expr '')'' \<and>
      parens_are_balanced (slice_to_last (length F + 1) expr)) \<and>
   get_function ''sin(0)+1'' = None \<and>
   get_function ''sin(0)+cos(0)'' = None \<and>
   MathExp_init ''sin(0)+1''
     = Inr (operator_node CHR ''+'' (function_node ''sin'' (literal_node ''0'')) (literal_node ''1'')) \<and>
   evaluate (operator_node CHR ''+'' (function_node ''sin'' (literal_node ''0'')) (literal_node ''1'')) None
     = Inr 1"
proof (intro conjI impI)
  assume "get_function expr = Some F"
  from get_function_Some[OF this]
  show "F \<in> set (map fst FUNCTION_LIST)" "startswith expr (F @ ''('')" "endswith expr '')''"
    "parens_are_balanced (slice_to_last (length F + 1) expr)" by simp_all
qed (simp_all add: init_eval node_defs float_eval evaluate_operator_def)

theorem function_detection_witness:
  "get_function ''sin(0)'' = Some ''sin'' \<and> startswith ''sin(0)'' ''sin('' \<and>
   endswith ''sin(0)'' '')'' \<and>
   parens_are_balanced (slice_to_last (length ''sin'' + 1) ''sin(0)'')"
proof -
  have h: "get_function ''sin(0)'' = Some ''sin''" by (simp add: init_eval)
  from h function_detection[of "''sin(0)''" "''sin''"] show ?thesis by simp
qed

subsection \<open>Variables\<close>

text \<open>
  C7: a literal leaf whose token is no numeric literal is looked up in the binding of the
  call, and a missing name raises \<^verbatim>\<open>SymbolNotFound\<close> with that name. \<^verbatim>\<open>x+1\<close> is
  constructed as the sum of the leaves \<^verbatim>\<open>x\<close> and \<^verbatim>\<open>1\<close>; it evaluates to 5 under
  \<open>{x: 4}\<close> and raises \<^verbatim>\<open>SymbolNotFound\<close> for \<^verbatim>\<open>x\<close> with an empty binding, passed or
  stored.
\<close>

theorem literal_variable_lookup:
  "(\<not> is_number token \<longrightarrow>
      evaluate (MathExp token MATHEXP_LITERAL l r vt) (Some tab)
        = (case tab token of None \<Rightarrow> Inl (SymbolNotFound token) | Some v \<Rightarrow> Inr v)) \<and>
   MathExp_init ''x+1''
     = Inr (operator_node CHR ''+'' (literal_node ''x'') (literal_node ''1'')) \<and>
   evaluate (operator_node CHR ''+'' (literal_node ''x'') (literal_node ''1''))
     (Some [''x'' \<mapsto> 4]) = Inr 5 \<and>
   evaluate (operator_node CHR ''+'' (literal_node ''x'') (literal_node ''1''))
     (Some Map.empty) = Inl (SymbolNotFound ''x'') \<and>
   evaluate (operator_node CHR ''+'' (literal_node ''x'') (literal_node ''1'')) None
     = Inl (SymbolNotFound ''x'')"
proof (intro conjI impI)
  show "evaluate (MathExp token MATHEXP_LITERAL l r vt) (Some tab)
        = (case tab token of None \<Rightarrow> Inl (SymbolNotFound token) | Some v \<Rightarrow> Inr v)"
    if "\<not> is_number token"
    using that by (simp add: MATHEXP_defs)
qed (simp_all add: init_eval node_defs float_eval evaluate_operator_def)

theorem literal_variable_lookup_witness:
  "\<not> is_number ''x'' \<and>
   evaluate (MathExp ''x'' MATHEXP_LITERAL None None Map.empty) (Some [''x'' \<mapsto> 4]) = Inr 4"
proof -
  have h: "\<not> is_number ''x''" by (simp add: float_eval)
  from h literal_variable_lookup[where token = "''x''" and tab = "[''x'' \<mapsto> 4]"
      and l = None and r = None and vt = Map.empty]
  show ?thesis by simp
qed

subsection \<open>The factorial\<close>

lemma fold_upto_fact: "fold (\<lambda>i res. res * i) [1..int n] a = a * fact n"
proof (induction n)
  case 0
  show ?case by simp
next
  case (Suc n)
  have "[1..int (Suc n)] = [1..int n] @ [int n + 1]"
    using upto_rec2[of 1 "int n + 1"] by (simp add: add.commute)
  then show ?case using Suc by (simp add: algebra_simps)
qed

lemma fact_py_eq:
  "fact_py x =
     (if 0 \<le> x \<and> frac x = 0 then Inr (real (fact (nat \<lfloor>x\<rfloor>))) else Inl InvalidArgument)"
proof (cases "0 \<le> x \<and> frac x = 0")
  case False
  then show ?thesis by (auto simp: fact_py_def)
next
  case True
  then have n0: "0 \<le> \<lfloor>x\<rfloor>" by simp
  define n where "n = nat \<lfloor>x\<rfloor>"
  have fl: "\<lfloor>x\<rfloor> = int n" using n0 by (simp add: n_def)
  have "fold (\<lambda>i res. res * i) [1..\<lfloor>x\<rfloor>] 1 = fact n"
    unfolding fl using fold_upto_fact[of n 1] by simp
  moreover have "n = 0 \<or> n = 1 \<Longrightarrow> (fact n :: real) = 1" by auto
  ultimately show ?thesis
    using True fl by (auto simp: fact_py_def Let_def n_def[symmetric])
qed

text \<open>
  C8: \<^verbatim>\<open>fact\<close> returns the factorial on the non-negative integral numbers and raises
  \<^verbatim>\<open>InvalidArgument\<close> on every negative or non-integral one. \<^verbatim>\<open>fact(3)\<close> is constructed
  and evaluates to 6; \<^verbatim>\<open>fact(-1)\<close> and \<^verbatim>\<open>fact(2.5)\<close> are constructed and their evaluation
  raises \<^verbatim>\<open>InvalidArgument\<close>.
\<close>

theorem fact_domain:
  "fact_py x =
     (if 0 \<le> x \<and> frac x = 0 then Inr (real (fact (nat \<lfloor>x\<rfloor>))) else Inl InvalidArgument) \<and>
   MathExp_init ''fact(3)'' = Inr (function_node ''fact'' (literal_node ''3'')) \<and>
   evaluate (function_node ''fact'' (literal_node ''3'')) None = Inr 6 \<and>
   MathExp_init ''fact(-1)''
     = Inr (function_node ''fact''
             (operator_node CHR ''-'' (literal_node ''0'') (literal_node ''1''))) \<and>
   evaluate (function_node ''fact''
              (operator_node CHR ''-'' (literal_node ''0'') (literal_node ''1''))) None
     = Inl InvalidArgument \<and>
   MathExp_init ''fact(2.5)'' = Inr (function_node ''fact'' (literal_node ''2.5'')) \<and>
   evaluate (function_node ''fact'' (literal_node ''2.5'')) None = Inl InvalidArgument"
proof (intro conjI)
  show "fact_py x =
     (if 0 \<le> x \<and> frac x = 0 then Inr (real (fact (nat \<lfloor>x\<rfloor>))) else Inl InvalidArgument)"
    by (rule fact_py_eq)
qed (simp_all add: init_eval node_defs float_eval evaluate_operator_def fact_py_def upto.simps)

theorem fact_domain_witness:
  "fact_py 3 = Inr 6 \<and> fact_py (-1) = Inl InvalidArgument \<and>
   fact_py (5/2) = Inl InvalidArgument"
  using fact_domain[of 3] fact_domain[of "-1"] fact_domain[of "5/2"]
  by (simp add: fact_numeral frac_def)

subsection \<open>The binding of a call and the stored binding\<close>

text \<open>
  C9: a call of \<^verbatim>\<open>evaluate\<close> leaves the object, and so its stored binding and those of
  its sub-trees, as it was. With a transient binding \<open>t\<close> the call returns the value of
  the tree in \<open>t\<close>: every leaf below the root is looked up in \<open>t\<close>, and no stored binding,
  of the root or of a node below it, takes part, so the result is the same whatever
  tables the nodes store, and it is what the tree returns with no binding passed when
  every node stores \<open>t\<close>. With no binding passed the call returns the value of the tree in
  the stored binding of its root, the stored bindings below the root being ignored.
  The tree of \<^verbatim>\<open>x+1\<close> whose root stores \<^verbatim>\<open>x = 7\<close> and whose leaf \<^verbatim>\<open>x\<close> stores \<^verbatim>\<open>x = 9\<close>
  evaluates to 5 with the binding \<^verbatim>\<open>{x: 4}\<close> and to 8 with none.
\<close>

theorem evaluate_transient_binding:
  "snd (call_evaluate tmp self) = self \<and>
   fst (call_evaluate (Some t) self) = value_of t self \<and>
   fst (call_evaluate None self) = value_of (get_variables_table self) self \<and>
   fst (call_evaluate (Some t) (set_all_tables vt self)) = fst (call_evaluate (Some t) self) \<and>
   fst (call_evaluate (Some t) self) = fst (call_evaluate None (set_all_tables t self)) \<and>
   fst (call_evaluate (Some t) self)
     = fst (call_evaluate None (set_variables_table t self)) \<and>
   fst (call_evaluate None self)
     = fst (call_evaluate (Some (get_variables_table self)) self) \<and>
   fst (call_evaluate (Some [''x'' \<mapsto> 4])
         (MathExp ''+'' MATHEXP_OPERATOR
            (Some (MathExp ''x'' MATHEXP_LITERAL None None [''x'' \<mapsto> 9]))
            (Some (MathExp ''1'' MATHEXP_LITERAL None None Map.empty))
            [''x'' \<mapsto> 7]))
     = Inr 5 \<and>
   fst (call_evaluate None
         (MathExp ''+'' MATHEXP_OPERATOR
            (Some (MathExp ''x'' MATHEXP_LITERAL None None [''x'' \<mapsto> 9]))
            (Some (MathExp ''1'' MATHEXP_LITERAL None None Map.empty))
            [''x'' \<mapsto> 7]))
     = Inr 8"
proof (intro conjI)
  show "fst (call_evaluate (Some t) self) = value_of t self"
    by (simp add: call_evaluate_def evaluate_value_of)
  show "fst (call_evaluate None self) = value_of (get_variables_table self) self"
    by (simp add: call_evaluate_def evaluate_None)
  show "fst (call_evaluate (Some t) (set_all_tables vt self))
          = fst (call_evaluate (Some t) self)"
    by (simp add: call_evaluate_def evaluate_value_of value_of_set_all_tables)
  show "fst (call_evaluate (Some t) self) = fst (call_evaluate None (set_all_tables t self))"
    by (simp add: call_evaluate_def evaluate_value_of evaluate_None
        get_variables_table_set_all_tables value_of_set_all_tables)
  show "fst (call_evaluate (Some t) self)
          = fst (call_evaluate None (set_variables_table t self))"
    by (cases self) (simp add: call_evaluate_def)
  show "fst (call_evaluate None self)
          = fst (call_evaluate (Some (get_variables_table self)) self)"
    by (cases self) (simp add: call_evaluate_def)
qed (simp_all add: call_evaluate_def MATHEXP_defs float_eval evaluate_operator_def)

theorem evaluate_transient_binding_witness:
  "snd (call_evaluate (Some [''x'' \<mapsto> 4])
         (add_variable ''x'' 7 (operator_node CHR ''+'' (literal_node ''x'') (literal_node ''1''))))
     = add_variable ''x'' 7 (operator_node CHR ''+'' (literal_node ''x'') (literal_node ''1'')) \<and>
   fst (call_evaluate (Some [''x'' \<mapsto> 4])
         (add_variable ''x'' 7 (operator_node CHR ''+'' (literal_node ''x'') (literal_node ''1''))))
     = Inr 5 \<and>
   fst (call_evaluate None
         (add_variable ''x'' 7 (operator_node CHR ''+'' (literal_node ''x'') (literal_node ''1''))))
     = Inr 8"
  using evaluate_transient_binding[of "Some [''x'' \<mapsto> 4]"
      "add_variable ''x'' 7 (operator_node CHR ''+'' (literal_node ''x'') (literal_node ''1''))"
      "[''x'' \<mapsto> 4]" Map.empty]
  by (simp add: node_defs float_eval evaluate_operator_def)

subsection \<open>Removing a variable\<close>

text \<open>
  C10: removing a key that the stored binding does not hold raises \<^verbatim>\<open>KeyError\<close>, and
  the object after the call is the object before it.
\<close>

theorem remove_variable_missing_key:
  "get_variables_table self key = None \<Longrightarrow>
   remove_variable key self = (Inl (KeyError key), self)"
  by (cases self) simp

theorem remove_variable_missing_key_witness:
  "get_variables_table (add_variable ''y'' 2 (literal_node ''y'')) ''x'' = None \<and>
   remove_variable ''x'' (add_variable ''y'' 2 (literal_node ''y''))
     = (Inl (KeyError ''x''), add_variable ''y'' 2 (literal_node ''y''))"
proof -
  have h: "get_variables_table (add_variable ''y'' 2 (literal_node ''y'')) ''x'' = None"
    by (simp add: literal_node_def)
  from h remove_variable_missing_key[OF h] show ?thesis by simp
qed

end
